theory Spec2Isabelle
  imports Main
begin

section \<open>Strings: the two library functions used by \<open>containsAcceptType\<close>\<close>

text \<open>
  A Go string is a sequence of bytes, here a \<^typ>\<open>string\<close>. \<open>strings.Split(s, sep)\<close>
  is only called with the one-byte separators \<open>","\<close> and \<open>";"\<close>: it cuts \<open>s\<close> at every
  occurrence of the separator, and a string without separator (the empty string
  included) gives the one-element slice holding the string itself.
\<close>

fun Split :: "string \<Rightarrow> char \<Rightarrow> string list" where
  "Split [] sep = [[]]"
| "Split (c # cs) sep =
     (if c = sep then [] # Split cs sep
      else (case Split cs sep of [] \<Rightarrow> [[c]] | p # ps \<Rightarrow> (c # p) # ps))"

text \<open>
  \<open>strings.TrimSpace\<close> removes leading and trailing white space as Unicode defines it
  (\<open>unicode.IsSpace\<close>). On the bytes of a string these are the UTF-8 encodings below:
  tab, line feed, vertical tab, form feed, carriage return, space, U+0085, U+00A0,
  U+1680, U+2000 to U+200A, U+2028, U+2029, U+202F, U+205F and U+3000.
\<close>

definition white_space :: "string list" where
  "white_space =
     [[CHR 0x09], [CHR 0x0A], [CHR 0x0B], [CHR 0x0C], [CHR 0x0D], [CHR 0x20],
      [CHR 0xC2, CHR 0x85], [CHR 0xC2, CHR 0xA0],
      [CHR 0xE1, CHR 0x9A, CHR 0x80],
      [CHR 0xE2, CHR 0x80, CHR 0x80], [CHR 0xE2, CHR 0x80, CHR 0x81],
      [CHR 0xE2, CHR 0x80, CHR 0x82], [CHR 0xE2, CHR 0x80, CHR 0x83],
      [CHR 0xE2, CHR 0x80, CHR 0x84], [CHR 0xE2, CHR 0x80, CHR 0x85],
      [CHR 0xE2, CHR 0x80, CHR 0x86], [CHR 0xE2, CHR 0x80, CHR 0x87],
      [CHR 0xE2, CHR 0x80, CHR 0x88], [CHR 0xE2, CHR 0x80, CHR 0x89],
      [CHR 0xE2, CHR 0x80, CHR 0x8A],
      [CHR 0xE2, CHR 0x80, CHR 0xA8], [CHR 0xE2, CHR 0x80, CHR 0xA9],
      [CHR 0xE2, CHR 0x80, CHR 0xAF], [CHR 0xE2, CHR 0x81, CHR 0x9F],
      [CHR 0xE3, CHR 0x80, CHR 0x80]]"

text \<open>The width in bytes of a white-space character at the start (at the end) of a
  string, 0 when the string does not start (end) with one.\<close>

definition leading_space :: "string \<Rightarrow> nat" where
  "leading_space s =
     (case find (\<lambda>e. take (length e) s = e) white_space of
        None \<Rightarrow> 0 | Some e \<Rightarrow> length e)"

definition trailing_space :: "string \<Rightarrow> nat" where
  "trailing_space s =
     (case find (\<lambda>e. length e \<le> length s \<and> drop (length s - length e) s = e) white_space of
        None \<Rightarrow> 0 | Some e \<Rightarrow> length e)"

lemma white_space_nonempty: "e \<in> set white_space \<Longrightarrow> 0 < length e"
  by (auto simp: white_space_def)

lemma leading_space_le: "0 < leading_space s \<Longrightarrow> s \<noteq> []"
  by (auto simp: leading_space_def find_Some_iff white_space_nonempty
      split: option.splits dest!: nth_mem [THEN white_space_nonempty])

lemma trailing_space_le: "0 < trailing_space s \<Longrightarrow> s \<noteq> []"
  by (auto simp: trailing_space_def find_Some_iff
      split: option.splits dest!: nth_mem [THEN white_space_nonempty])

function TrimLeft :: "string \<Rightarrow> string" where
  "TrimLeft s = (if leading_space s = 0 then s else TrimLeft (drop (leading_space s) s))"
  by pat_completeness auto
termination
proof (relation "measure length")
  fix s :: string
  assume "leading_space s \<noteq> 0"
  then have "s \<noteq> []" by (auto dest: leading_space_le)
  then show "(drop (leading_space s) s, s) \<in> measure length"
    using \<open>leading_space s \<noteq> 0\<close> by (cases s) auto
qed simp

function TrimRight :: "string \<Rightarrow> string" where
  "TrimRight s =
     (if trailing_space s = 0 then s else TrimRight (take (length s - trailing_space s) s))"
  by pat_completeness auto
termination
proof (relation "measure length")
  fix s :: string
  assume "trailing_space s \<noteq> 0"
  then have "s \<noteq> []" by (auto dest: trailing_space_le)
  then show "(take (length s - trailing_space s) s, s) \<in> measure length"
    using \<open>trailing_space s \<noteq> 0\<close> by (cases s) auto
qed simp

declare TrimLeft.simps [simp del] TrimRight.simps [simp del]

definition TrimSpace :: "string \<Rightarrow> string" where
  "TrimSpace s = TrimRight (TrimLeft s)"

section \<open>\<open>containsAcceptType\<close>\<close>

text \<open>
  Indexing a slice out of range panics in Go; the model keeps the panic as a value, so
  that \<open>strings.Split(part, ";")[0]\<close> is shown never to fail rather than assumed so.
\<close>

datatype panic = IndexOutOfRange | CloseOfClosedChannel | SendOnClosedChannel | NilDereference

definition index0 :: "'a list \<Rightarrow> panic + 'a" where
  "index0 xs = (case xs of [] \<Rightarrow> Inl IndexOutOfRange | x # _ \<Rightarrow> Inr x)"

text \<open>The loop over \<open>parts\<close>, returning at the first entry that matches.\<close>

fun containsAcceptType_loop :: "string list \<Rightarrow> string \<Rightarrow> panic + bool" where
  "containsAcceptType_loop [] expectedType = Inr False"
| "containsAcceptType_loop (part # parts) expectedType =
     (case index0 (Split part (CHR '';'')) of
        Inl p \<Rightarrow> Inl p
      | Inr part0 \<Rightarrow>
          if TrimSpace part0 = expectedType then Inr True
          else containsAcceptType_loop parts expectedType)"

definition containsAcceptType :: "string \<Rightarrow> string \<Rightarrow> panic + bool" where
  "containsAcceptType acceptHeader expectedType =
     containsAcceptType_loop (Split acceptHeader (CHR '','')) expectedType"

section \<open>Messages and their wire encoding\<close>

text \<open>
  \<open>type ClientID string\<close>; an \<open>error\<close> is the text given to \<open>errors.New\<close>. An
  \<open>SseMessage\<close> is a \<open>map[string]interface{}\<close>: the dynamic values are strings, client
  ids (a type of their own, so \<open>.(string)\<close> does not match them), 64-bit integers, and
  anything else, which the model keeps opaque.
\<close>

type_synonym ClientID = string
type_synonym error = string

datatype "value" = String string | ClientIDv ClientID | Int64 int | Other string

type_synonym SseMessage = "string \<rightharpoonup> value"

definition Event :: "SseMessage \<Rightarrow> string" where
  "Event m = (case m ''event'' of Some (String event) \<Rightarrow> event | _ \<Rightarrow> [])"

text \<open>
  \<open>json.Marshal\<close> belongs to the standard library and is a parameter of the model: it
  gives the JSON text of a message or an error. \<open>Encode\<close> wraps that text into
  \<open>fmt.Sprintf("data: %s\r\n\r\n", encoded_message)\<close>.
\<close>

definition CRLF :: string where
  "CRLF = [CHR 0x0D, CHR 0x0A]"

definition Encode :: "(SseMessage \<Rightarrow> error + string) \<Rightarrow> SseMessage \<Rightarrow> error + string" where
  "Encode Marshal m =
     (case Marshal m of
        Inl err \<Rightarrow> Inl err
      | Inr encoded_message \<Rightarrow> Inr (''data: '' @ encoded_message @ CRLF @ CRLF))"

section \<open>Channels\<close>

text \<open>
  A Go channel: the values buffered in it, its capacity, and whether it was closed.
  Closing a closed channel and sending on a closed channel panic. A send inside a
  \<open>select\<close> with a \<open>default\<close> branch goes through when the buffer has a free slot and
  takes the \<open>default\<close> branch (result \<open>None\<close>) otherwise. A receive takes the oldest
  buffered value; on an empty channel it reports closure (\<open>ok = false\<close>) when the
  channel is closed and is not ready otherwise.
\<close>

record 'a chan =
  buffer :: "'a list"
  capacity :: nat
  is_closed :: bool

definition make_chan :: "nat \<Rightarrow> 'a chan" where
  "make_chan n = \<lparr>buffer = [], capacity = n, is_closed = False\<rparr>"

definition close_chan :: "'a chan \<Rightarrow> panic + 'a chan" where
  "close_chan c = (if is_closed c then Inl CloseOfClosedChannel else Inr (c\<lparr>is_closed := True\<rparr>))"

definition try_send :: "'a chan \<Rightarrow> 'a \<Rightarrow> panic + 'a chan option" where
  "try_send c v =
     (if is_closed c then Inl SendOnClosedChannel
      else if length (buffer c) < capacity c then Inr (Some (c\<lparr>buffer := buffer c @ [v]\<rparr>))
      else Inr None)"

datatype 'a received = Value 'a | Closed | NotReady

definition recv :: "'a chan \<Rightarrow> 'a received \<times> 'a chan" where
  "recv c =
     (case buffer c of
        v # vs \<Rightarrow> (Value v, c\<lparr>buffer := vs\<rparr>)
      | [] \<Rightarrow> (if is_closed c then Closed else NotReady, c))"

section \<open>Sessions\<close>

text \<open>
  The per-connection handler. Its hooks are application code: the model takes what
  they return (\<open>OnInitialize\<close> and \<open>OnConnect\<close> an optional error, \<open>OnMessage\<close> a
  verdict on the message) and records every call in the trace of the run;
  \<open>OnDisconnect\<close> and \<open>OnCallback\<close> return nothing. Hooks are taken not to call back
  into the session or the registry while they run.
\<close>

record SseEventHandler =
  OnInitialize :: "error option"
  OnConnect :: "error option"
  OnMessage :: "SseMessage \<Rightarrow> bool"

text \<open>
  The consumer handle of the fan-out library (\<open>mpmc.Consumer\<close>): its id and how often
  its \<open>Close\<close> was called. The messages it delivers come with the schedule of a run.
\<close>

record Consumer =
  Id :: string
  close_calls :: nat

definition Consumer_Close :: "Consumer \<Rightarrow> Consumer" where
  "Consumer_Close c = c\<lparr>close_calls := close_calls c + 1\<rparr>"

text \<open>\<open>SseSession\<close>; the mutex \<open>mu\<close> has no counterpart, every call below being atomic.\<close>

record SseSession =
  client_id :: ClientID
  user_handler :: "SseEventHandler option"
  done_chan :: "unit chan"
  broadcast_messages :: Consumer
  direct_messages :: "SseMessage chan"
  closed :: bool

definition ErrSessionClosed :: error where
  "ErrSessionClosed = ''session closed''"

definition ErrQueueFull :: error where
  "ErrQueueFull = ''direct message buffer full''"

definition DirectMessage :: "SseSession \<Rightarrow> SseMessage \<Rightarrow> panic + (error option \<times> SseSession)" where
  "DirectMessage s msg =
     (if closed s then Inr (Some ErrSessionClosed, s)
      else (case try_send (direct_messages s) msg of
              Inl p \<Rightarrow> Inl p
            | Inr (Some c) \<Rightarrow> Inr (None, s\<lparr>direct_messages := c\<rparr>)
            | Inr None \<Rightarrow> Inr (Some ErrQueueFull, s)))"

definition Close :: "SseSession \<Rightarrow> panic + SseSession" where
  "Close s =
     (if closed s then Inr s
      else
        let s1 = s\<lparr>closed := True\<rparr> in
        (case close_chan (done_chan s1) of
           Inl p \<Rightarrow> Inl p
         | Inr d \<Rightarrow>
             let s2 = s1\<lparr>done_chan := d\<rparr>;
                 s3 = s2\<lparr>broadcast_messages := Consumer_Close (broadcast_messages s2)\<rparr>
             in (case close_chan (direct_messages s3) of
                   Inl p \<Rightarrow> Inl p
                 | Inr c \<Rightarrow> Inr (s3\<lparr>direct_messages := c\<rparr>))))"

text \<open>The session literal of \<open>RegisterSSE\<close>: no handler yet, a direct queue of 256 slots.\<close>

definition new_session :: "Consumer \<Rightarrow> SseSession" where
  "new_session broadcastConsumer =
     \<lparr>client_id = Id broadcastConsumer,
      user_handler = None,
      done_chan = make_chan 0,
      broadcast_messages = broadcastConsumer,
      direct_messages = make_chan 256,
      closed = False\<rparr>"

section \<open>The server, requests, and the trace of a run\<close>

text \<open>
  Everything a run does that can be observed from outside is appended to a trace, in
  the order in which it happens: the response headers of a stream, \<open>WriteError\<close>, every
  \<open>w.Write\<close> of a frame with its outcome, \<open>Flush\<close>, the calls of the five hooks, the
  insertions into and deletions from the registry, the calls of \<open>session.Close\<close>, and
  what is done to the keepalive ticker and the request context.
\<close>

datatype event =
    SetHeaders
  | WriteError error
  | Write string bool
  | Flush
  | HookOnInitialize ClientID
  | HookOnConnect ClientID
  | HookOnMessage ClientID SseMessage
  | HookOnCallback ClientID
  | HookOnDisconnect ClientID
  | RegistryInsert ClientID
  | RegistryDelete ClientID
  | SessionClose ClientID
  | TickerReset
  | TickerStop
  | Cancel

text \<open>
  \<open>SseServer\<close> with the session objects it points to: \<open>clients\<close> maps a client id to
  the address of a session, \<open>heap\<close> holds the sessions (a session is shared between the
  registry and the request that serves it), \<open>next_ref\<close> is the next free address. The
  factory is \<open>None\<close> when it is nil, and else the handler it returns (\<open>None\<close> for a nil
  handler). \<open>fanout\<close>, \<open>Logging\<close> and \<open>mu\<close> are left out.
\<close>

record world =
  factory :: "SseEventHandler option option"
  clients :: "ClientID \<rightharpoonup> nat"
  heap :: "nat \<rightharpoonup> SseSession"
  next_ref :: nat
  trace :: "event list"

definition emit :: "event \<Rightarrow> world \<Rightarrow> world" where
  "emit e w = w\<lparr>trace := trace w @ [e]\<rparr>"

definition store :: "nat \<Rightarrow> SseSession \<Rightarrow> world \<Rightarrow> world" where
  "store a s w = w\<lparr>heap := (heap w)(a \<mapsto> s)\<rparr>"

text \<open>
  What the handlers read of a request: the \<open>Accept\<close> and \<open>X-Client-ID\<close> headers
  (\<open>Header.Get\<close> gives the empty string for a header that is absent) and the unified
  parameter map stored in its context, if any.
\<close>

record Request =
  Accept :: string
  X_Client_ID :: string
  request_params :: "(string \<rightharpoonup> value) option"

text \<open>
  What a run takes from outside the repository: \<open>json.Marshal\<close>, the conversion
  \<open>convert.ConvertInto[string]\<close> of a parameter value, and whether the response writer
  implements \<open>http.Flusher\<close>.
\<close>

record env =
  json_Marshal :: "SseMessage \<Rightarrow> error + string"
  ConvertInto :: "value \<Rightarrow> string \<times> bool"
  flusher :: bool

definition HttpParameters :: "Request \<Rightarrow> string \<rightharpoonup> value" where
  "HttpParameters r = (case request_params r of Some params \<Rightarrow> params | None \<Rightarrow> Map.empty)"

definition HttpParameterGeneric :: "Request \<Rightarrow> string \<Rightarrow> error + value" where
  "HttpParameterGeneric r name =
     (case HttpParameters r name of
        Some val \<Rightarrow> Inr val
      | None \<Rightarrow> Inl (''parameter name not found: '' @ name))"

definition HttpParameterT :: "env \<Rightarrow> Request \<Rightarrow> string \<Rightarrow> string \<times> bool" where
  "HttpParameterT e r name =
     (case HttpParameterGeneric r name of
        Inl err \<Rightarrow> ([], False)
      | Inr v \<Rightarrow> ConvertInto e v)"

section \<open>Callback requests\<close>

definition ErrMissingClientID :: error where
  "ErrMissingClientID = ''missing client_id''"

definition ErrClientNotFound :: error where
  "ErrClientNotFound = ''client not found''"

text \<open>The first part of \<open>handleCallback\<close>: the local variable \<open>clientID\<close> after the three
  attempts to fill it.\<close>

definition callback_clientID :: "env \<Rightarrow> Request \<Rightarrow> ClientID" where
  "callback_clientID e r =
     (let clientID = [];
          clientIDHeader = X_Client_ID r;
          clientID = (if clientIDHeader \<noteq> [] then clientIDHeader else clientID);
          clientID =
            (if clientID = [] then
               (let (clientIDParameters, ok) = HttpParameterT e r ''client_id''
                in if ok \<and> clientIDParameters \<noteq> [] then clientIDParameters else clientID)
             else clientID);
          clientID =
            (if clientID = [] then
               (let (clientIDParameters, ok) = HttpParameterT e r ''observer_id''
                in if ok \<and> clientIDParameters \<noteq> [] then clientIDParameters else clientID)
             else clientID)
      in clientID)"

definition handleCallback :: "env \<Rightarrow> Request \<Rightarrow> world \<Rightarrow> panic + world" where
  "handleCallback e r w =
     (let clientID = callback_clientID e r in
      if clientID = [] then Inr (emit (WriteError ErrMissingClientID) w)
      else (case clients w clientID of
              None \<Rightarrow> Inr (emit (WriteError ErrClientNotFound) w)
            | Some a \<Rightarrow>
                (case heap w a of
                   None \<Rightarrow> Inl NilDereference
                 | Some session \<Rightarrow>
                     (case user_handler session of
                        Some h \<Rightarrow> Inr (emit (HookOnCallback (client_id session)) w)
                      | None \<Rightarrow> Inr w))))"

section \<open>The connection loop\<close>

text \<open>
  One turn of the \<open>for { select { ... } }\<close> loop either goes round again, returns from
  the request handler, or panics.
\<close>

datatype 'a flow = Continue 'a | Return 'a | Panics panic

text \<open>
  Time is counted in seconds. The keepalive ticker is kept as the time of its next
  tick: \<open>time.NewTicker(d)\<close> and \<open>Reset(d)\<close> at time \<open>now\<close> set it to \<open>now + d\<close>, its
  channel is ready once that time is reached, and a tick taken at time \<open>now\<close> moves it
  by whole periods to the first time after \<open>now\<close> (ticks missed by a slow receiver are
  dropped). A tick that was due before a \<open>Reset\<close> is taken as discarded by it.
\<close>

definition pingInterval :: int where
  "pingInterval = 60"

definition next_tick :: "int \<Rightarrow> int \<Rightarrow> int" where
  "next_tick pingTicker now = pingTicker + pingInterval * (1 + (now - pingTicker) div pingInterval)"

text \<open>
  What happens to a connection, one occurrence per entry of a schedule, each with the
  time at which it happens: one of the four \<open>select\<close> cases becomes ready and is taken
  (a broadcast message arrives or the broadcast queue is closed; the direct queue is
  read; the ticker channel is read; the request context is done), or another goroutine
  calls \<open>DirectMessage\<close> or \<open>Close\<close> on the session. The boolean of a case that writes a
  frame says whether \<open>w.Write\<close> succeeds. A case that is named while it is not ready
  (the direct queue empty and open, the tick not yet due) is not taken.
\<close>

datatype occurrence =
    Recv_broadcast SseMessage bool
  | Broadcast_closed
  | Recv_direct bool
  | Recv_tick bool
  | Recv_done
  | Call_DirectMessage SseMessage
  | Call_Close

definition write_frame :: "env \<Rightarrow> SseMessage \<Rightarrow> bool \<Rightarrow> world \<Rightarrow> world flow" where
  "write_frame e msg write_ok w =
     (case Encode (json_Marshal e) msg of
        Inr encoded \<Rightarrow>
          if write_ok then Continue (emit (Write encoded True) w)
          else Return (emit (Write encoded False) w)
      | Inl err \<Rightarrow> Return (emit (WriteError err) w))"

text \<open>The body shared by the broadcast and the direct case: filter, encode and write,
  then flush and reset the ticker when the writer can flush.\<close>

definition deliver ::
  "env \<Rightarrow> int \<Rightarrow> SseSession \<Rightarrow> SseMessage \<Rightarrow> bool \<Rightarrow> world \<times> int \<Rightarrow> (world \<times> int) flow" where
  "deliver e now session msg write_ok st =
     (let (w, pingTicker) = st;
          (skip, w) =
            (case user_handler session of
               Some h \<Rightarrow> (\<not> OnMessage h msg, emit (HookOnMessage (client_id session) msg) w)
             | None \<Rightarrow> (False, w))
      in if skip then Continue (w, pingTicker)
         else (case write_frame e msg write_ok w of
                 Continue w \<Rightarrow>
                   if flusher e then Continue (emit TickerReset (emit Flush w), now + pingInterval)
                   else Continue (w, pingTicker)
               | Return w \<Rightarrow> Return (w, pingTicker)
               | Panics p \<Rightarrow> Panics p))"

definition pingMsg :: "int \<Rightarrow> SseMessage" where
  "pingMsg now = [''event'' \<mapsto> String ''ping'', ''payload'' \<mapsto> Int64 now]"

definition step :: "env \<Rightarrow> nat \<Rightarrow> int \<times> occurrence \<Rightarrow> world \<times> int \<Rightarrow> (world \<times> int) flow" where
  "step e a x st =
     (let (now, occ) = x; (w, pingTicker) = st in
      case heap w a of
        None \<Rightarrow> Panics NilDereference
      | Some session \<Rightarrow>
          (case occ of
             Recv_broadcast msg write_ok \<Rightarrow> deliver e now session msg write_ok (w, pingTicker)
           | Broadcast_closed \<Rightarrow> Return (w, pingTicker)
           | Recv_direct write_ok \<Rightarrow>
               (case recv (direct_messages session) of
                  (NotReady, c) \<Rightarrow> Continue (w, pingTicker)
                | (Closed, c) \<Rightarrow> Return (w, pingTicker)
                | (Value directMsg, c) \<Rightarrow>
                    deliver e now session directMsg write_ok
                      (store a (session\<lparr>direct_messages := c\<rparr>) w, pingTicker))
           | Recv_tick write_ok \<Rightarrow>
               if now < pingTicker then Continue (w, pingTicker)
               else (case write_frame e (pingMsg now) write_ok w of
                       Continue w \<Rightarrow>
                         Continue (if flusher e then emit Flush w else w, next_tick pingTicker now)
                     | Return w \<Rightarrow> Return (w, next_tick pingTicker now)
                     | Panics p \<Rightarrow> Panics p)
           | Recv_done \<Rightarrow> Return (w, pingTicker)
           | Call_DirectMessage msg \<Rightarrow>
               (case DirectMessage session msg of
                  Inl p \<Rightarrow> Panics p
                | Inr (err, session') \<Rightarrow> Continue (store a session' w, pingTicker))
           | Call_Close \<Rightarrow>
               (case Close session of
                  Inl p \<Rightarrow> Panics p
                | Inr session' \<Rightarrow>
                    Continue (store a session' (emit (SessionClose (client_id session)) w),
                      pingTicker))))"

text \<open>The loop runs through the schedule; with nothing left to happen it stays blocked
  in its \<open>select\<close>, which is the result \<open>Continue\<close>.\<close>

fun loop :: "env \<Rightarrow> nat \<Rightarrow> (int \<times> occurrence) list \<Rightarrow> world \<times> int \<Rightarrow> (world \<times> int) flow" where
  "loop e a [] st = Continue st"
| "loop e a (x # xs) st =
     (case step e a x st of
        Continue st' \<Rightarrow> loop e a xs st'
      | Return st' \<Rightarrow> Return st'
      | Panics p \<Rightarrow> Panics p)"

section \<open>Serving a request\<close>

text \<open>The deferred calls of the request handler; they run last in, first out when it
  returns.\<close>

datatype deferred = Defer_cancel | Defer_session_Close | Defer_disconnect | Defer_pingTicker_Stop

definition run_deferred1 :: "nat \<Rightarrow> deferred \<Rightarrow> world \<Rightarrow> panic + world" where
  "run_deferred1 a d w =
     (case d of
        Defer_cancel \<Rightarrow> Inr (emit Cancel w)
      | Defer_session_Close \<Rightarrow>
          (case heap w a of
             None \<Rightarrow> Inl NilDereference
           | Some session \<Rightarrow>
               (case Close session of
                  Inl p \<Rightarrow> Inl p
                | Inr session' \<Rightarrow>
                    Inr (store a session' (emit (SessionClose (client_id session)) w))))
      | Defer_disconnect \<Rightarrow>
          (case heap w a of
             None \<Rightarrow> Inl NilDereference
           | Some session \<Rightarrow>
               (let w = w\<lparr>clients := (clients w)(client_id session := None)\<rparr>;
                    w = emit (RegistryDelete (client_id session)) w
                in (case user_handler session of
                      Some h \<Rightarrow> Inr (emit (HookOnDisconnect (client_id session)) w)
                    | None \<Rightarrow> Inr w)))
      | Defer_pingTicker_Stop \<Rightarrow> Inr (emit TickerStop w))"

fun run_deferred :: "nat \<Rightarrow> deferred list \<Rightarrow> world \<Rightarrow> panic + world" where
  "run_deferred a [] w = Inr w"
| "run_deferred a (d # ds) w =
     (case run_deferred1 a d w of
        Inl p \<Rightarrow> Inl p
      | Inr w' \<Rightarrow> run_deferred a ds w')"

text \<open>How a request ends: its handler returned, it is still blocked in the loop (with the
  ticker as it then stands), or it panicked.\<close>

datatype outcome = Returned world | Blocked world int | Panicked panic

definition return_from :: "nat \<Rightarrow> deferred list \<Rightarrow> world \<Rightarrow> outcome" where
  "return_from a defers w =
     (case run_deferred a defers w of Inl p \<Rightarrow> Panicked p | Inr w' \<Rightarrow> Returned w')"

text \<open>Creating and registering the session, with the consumer the fan-out library made.\<close>

definition register_session :: "Consumer \<Rightarrow> world \<Rightarrow> nat \<times> world" where
  "register_session broadcastConsumer w =
     (let session = next_ref w;
          s = new_session broadcastConsumer;
          w = w\<lparr>heap := (heap w)(session \<mapsto> s), next_ref := session + 1\<rparr>;
          w = w\<lparr>clients := (clients w)(client_id s \<mapsto> session)\<rparr>
      in (session, emit (RegistryInsert (client_id s)) w))"

text \<open>The user handler is made and initialised; the result is the error of
  \<open>OnInitialize\<close>, if any.\<close>

definition initialize :: "nat \<Rightarrow> world \<Rightarrow> panic + (error option \<times> world)" where
  "initialize a w =
     (case factory w of
        None \<Rightarrow> Inr (None, w)
      | Some None \<Rightarrow> Inr (None, w)
      | Some (Some uh) \<Rightarrow>
          (case heap w a of
             None \<Rightarrow> Inl NilDereference
           | Some session \<Rightarrow>
               (let w = store a (session\<lparr>user_handler := Some uh\<rparr>) w;
                    w = emit (HookOnInitialize (client_id session)) w
                in Inr (OnInitialize uh, w))))"

definition on_connect_message :: "ClientID \<Rightarrow> SseMessage" where
  "on_connect_message c =
     [''event'' \<mapsto> String ''on_connect'', ''observer_id'' \<mapsto> ClientIDv c, ''client_id'' \<mapsto> ClientIDv c]"

text \<open>The client id is queued as a direct message (the result of \<open>DirectMessage\<close> is
  dropped), then \<open>OnConnect\<close> runs; the result is its error, if any.\<close>

definition connect :: "nat \<Rightarrow> world \<Rightarrow> panic + (error option \<times> world)" where
  "connect a w =
     (case heap w a of
        None \<Rightarrow> Inl NilDereference
      | Some session \<Rightarrow>
          (case DirectMessage session (on_connect_message (client_id session)) of
             Inl p \<Rightarrow> Inl p
           | Inr (err, session') \<Rightarrow>
               (let w = store a session' w in
                case user_handler session' of
                  Some h \<Rightarrow> Inr (OnConnect h, emit (HookOnConnect (client_id session')) w)
                | None \<Rightarrow> Inr (None, w))))"

text \<open>
  The streaming branch of the route: \<open>broadcastConsumer\<close> is what
  \<open>srv.fanout.CreateConsumer\<close> returned, \<open>t0\<close> the time at which the ticker is made,
  \<open>sched\<close> what happens to the connection afterwards.
\<close>

definition stream :: "env \<Rightarrow> Consumer \<Rightarrow> int \<Rightarrow> (int \<times> occurrence) list \<Rightarrow> world \<Rightarrow> outcome" where
  "stream e broadcastConsumer t0 sched w =
     (let w = emit SetHeaders w;
          defers = [Defer_cancel];
          (session, w) = register_session broadcastConsumer w;
          defers = Defer_session_Close # defers
      in case initialize session w of
           Inl p \<Rightarrow> Panicked p
         | Inr (Some err, w) \<Rightarrow> return_from session defers (emit (WriteError err) w)
         | Inr (None, w) \<Rightarrow>
             (let defers = Defer_disconnect # defers in
              case connect session w of
                Inl p \<Rightarrow> Panicked p
              | Inr (Some err, w) \<Rightarrow> return_from session defers (emit (WriteError err) w)
              | Inr (None, w) \<Rightarrow>
                  (let pingTicker = t0 + pingInterval;
                       defers = Defer_pingTicker_Stop # defers
                   in case loop e session sched (w, pingTicker) of
                        Continue (w, pingTicker) \<Rightarrow> Blocked w pingTicker
                      | Return (w, pingTicker) \<Rightarrow> return_from session defers w
                      | Panics p \<Rightarrow> Panicked p)))"

text \<open>The route registered for the endpoint: a request that does not accept
  \<open>text/event-stream\<close> and carries a client id is a callback, any other opens a stream.\<close>

definition serve ::
  "env \<Rightarrow> Request \<Rightarrow> Consumer \<Rightarrow> int \<Rightarrow> (int \<times> occurrence) list \<Rightarrow> world \<Rightarrow> outcome" where
  "serve e r broadcastConsumer t0 sched w =
     (let acceptHeader = Accept r; clientID = X_Client_ID r in
      case containsAcceptType acceptHeader ''text/event-stream'' of
        Inl p \<Rightarrow> Panicked p
      | Inr accepts \<Rightarrow>
          if \<not> accepts \<and> clientID \<noteq> [] then
            (case handleCallback e r w of Inl p \<Rightarrow> Panicked p | Inr w' \<Rightarrow> Returned w')
          else stream e broadcastConsumer t0 sched w)"

section \<open>Auxiliary notions for the proofs\<close>

text \<open>
  The invariant of every session the server makes: a direct queue of 256 slots holding
  at most 256 messages, and both channels closed exactly when the \<open>closed\<close> flag is set.
\<close>

definition session_ok :: "SseSession \<Rightarrow> bool" where
  "session_ok s =
     (capacity (direct_messages s) = 256 \<and> length (buffer (direct_messages s)) \<le> 256 \<and>
      is_closed (direct_messages s) = closed s \<and> is_closed (done_chan s) = closed s)"

text \<open>
  A session whose consumer was released as often as its flag says: \<open>n\<close> calls of the
  consumer's \<open>Close\<close> before the session was made, and one more once the session is
  closed.
\<close>

definition released :: "nat \<Rightarrow> SseSession \<Rightarrow> bool" where
  "released n s = (close_calls (broadcast_messages s) = n + (if closed s then 1 else 0))"

text \<open>
  The events one turn of the loop adds to the trace: those of a delivered broadcast or
  direct message, those of a ping, the call of \<open>Close\<close> by another goroutine, or none.
  The events of a whole loop are a concatenation of such turns.
\<close>

definition deliver_events :: "env \<Rightarrow> SseEventHandler option \<Rightarrow> ClientID \<Rightarrow> SseMessage \<Rightarrow> bool \<Rightarrow> event list" where
  "deliver_events e uh c msg ok =
     (case uh of Some h \<Rightarrow> [HookOnMessage c msg] | None \<Rightarrow> []) @
     (if (case uh of Some h \<Rightarrow> \<not> OnMessage h msg | None \<Rightarrow> False) then []
      else (case Encode (json_Marshal e) msg of
              Inl err \<Rightarrow> [WriteError err]
            | Inr enc \<Rightarrow> Write enc ok # (if ok \<and> flusher e then [Flush, TickerReset] else [])))"

definition ping_events :: "env \<Rightarrow> int \<Rightarrow> bool \<Rightarrow> event list" where
  "ping_events e now ok =
     (case Encode (json_Marshal e) (pingMsg now) of
        Inl err \<Rightarrow> [WriteError err]
      | Inr enc \<Rightarrow> Write enc ok # (if ok \<and> flusher e then [Flush] else []))"

definition turn :: "env \<Rightarrow> SseEventHandler option \<Rightarrow> ClientID \<Rightarrow> event list \<Rightarrow> bool" where
  "turn e uh c seg =
     (seg = [] \<or> seg = [SessionClose c] \<or> (\<exists>msg ok. seg = deliver_events e uh c msg ok) \<or>
      (\<exists>now ok. seg = ping_events e now ok))"

definition turns :: "env \<Rightarrow> SseEventHandler option \<Rightarrow> ClientID \<Rightarrow> event list \<Rightarrow> bool" where
  "turns e uh c evs = (\<exists>segs. evs = concat segs \<and> list_all (turn e uh c) segs)"

definition add_events :: "event list \<Rightarrow> world \<Rightarrow> world" where
  "add_events evs w = w\<lparr>trace := trace w @ evs\<rparr>"

text \<open>
  The handler a new connection gets from the factory, the state in which a connection
  enters its loop (session registered, handler initialised, client id queued,
  \<open>OnConnect\<close> called), and the deferred calls pending during the loop.
\<close>

definition handler_of :: "world \<Rightarrow> SseEventHandler option" where
  "handler_of w = (case factory w of Some (Some h) \<Rightarrow> Some h | _ \<Rightarrow> None)"

definition established :: "Consumer \<Rightarrow> world \<Rightarrow> world" where
  "established c w =
     (let (a, w1) = register_session c (emit SetHeaders w) in
      case initialize a w1 of
        Inl p \<Rightarrow> w1
      | Inr (err, w2) \<Rightarrow> (case connect a w2 of Inl p \<Rightarrow> w2 | Inr (err', w3) \<Rightarrow> w3))"

definition loop_defers :: "deferred list" where
  "loop_defers = [Defer_pingTicker_Stop, Defer_disconnect, Defer_session_Close, Defer_cancel]"

text \<open>
  The events one occurrence adds to the trace, read off the session and the ticker as
  they are before it; the events a run added to a trace; and a turn or a loop ending,
  blocked or returned, in a given state.
\<close>

definition occurrence_events :: "env \<Rightarrow> SseSession \<Rightarrow> int \<Rightarrow> int \<times> occurrence \<Rightarrow> event list" where
  "occurrence_events e s pingTicker x =
     (case snd x of
        Recv_broadcast msg ok \<Rightarrow> deliver_events e (user_handler s) (client_id s) msg ok
      | Recv_direct ok \<Rightarrow>
          (case buffer (direct_messages s) of
             [] \<Rightarrow> []
           | msg # rest \<Rightarrow> deliver_events e (user_handler s) (client_id s) msg ok)
      | Recv_tick ok \<Rightarrow> if fst x < pingTicker then [] else ping_events e (fst x) ok
      | Call_Close \<Rightarrow> [SessionClose (client_id s)]
      | _ \<Rightarrow> [])"

definition since :: "world \<Rightarrow> world \<Rightarrow> event list" where
  "since w w' = drop (length (trace w)) (trace w')"

definition ends_in :: "(world \<times> int) flow \<Rightarrow> world \<Rightarrow> bool" where
  "ends_in r w' = (\<exists>t'. r = Continue (w', t') \<or> r = Return (w', t'))"

text \<open>
  A trace in which the handler filters every frame: each frame written is a ping, or the
  event just before it is the call of \<open>OnMessage\<close> on the message it encodes, and the
  handler accepted that message.
\<close>

definition is_ping :: "env \<Rightarrow> string \<Rightarrow> bool" where
  "is_ping e b = (\<exists>now. Encode (json_Marshal e) (pingMsg now) = Inr b)"

fun filtered_from :: "env \<Rightarrow> SseEventHandler \<Rightarrow> ClientID \<Rightarrow> event option \<Rightarrow> event list \<Rightarrow> bool" where
  "filtered_from e h c prev [] = True"
| "filtered_from e h c prev (ev # evs) =
     ((case ev of
         Write b ok \<Rightarrow>
           is_ping e b \<or>
           (case prev of
              Some (HookOnMessage c' m) \<Rightarrow>
                c' = c \<and> OnMessage h m \<and> Encode (json_Marshal e) m = Inr b
            | _ \<Rightarrow> False)
       | _ \<Rightarrow> True) \<and>
      filtered_from e h c (Some ev) evs)"

text \<open>
  The resolution of a callback's client id in the words of the specification: the
  candidates in their order of priority (the header, the \<open>client_id\<close> parameter, the
  \<open>observer_id\<close> parameter, a parameter that is absent or does not convert to a string
  counting as empty), and the first of them that is not empty.
\<close>

definition parameter_or_empty :: "env \<Rightarrow> Request \<Rightarrow> string \<Rightarrow> string" where
  "parameter_or_empty e r name =
     (case request_params r of
        None \<Rightarrow> []
      | Some params \<Rightarrow>
          (case params name of
             None \<Rightarrow> []
           | Some v \<Rightarrow> (if snd (ConvertInto e v) then fst (ConvertInto e v) else [])))"

definition callback_candidates :: "env \<Rightarrow> Request \<Rightarrow> string list" where
  "callback_candidates e r =
     [X_Client_ID r, parameter_or_empty e r ''client_id'', parameter_or_empty e r ''observer_id'']"

definition first_nonempty :: "string list \<Rightarrow> string" where
  "first_nonempty xs = (case filter (\<lambda>x. x \<noteq> []) xs of [] \<Rightarrow> [] | x # _ \<Rightarrow> x)"

section \<open>Example inputs\<close>

text \<open>
  Inputs for the concrete runs below: a stand-in for \<open>json.Marshal\<close> that renders the
  event name only, a conversion that accepts string values, a handler that rejects
  every message, a server without sessions, and a consumer with the id \<open>c1\<close>.
\<close>

definition example_Marshal :: "SseMessage \<Rightarrow> error + string" where
  "example_Marshal m = Inr (''{event:'' @ Event m @ ''}'')"

definition example_env :: env where
  "example_env =
     \<lparr>json_Marshal = example_Marshal,
      ConvertInto = (\<lambda>v. case v of String x \<Rightarrow> (x, True) | _ \<Rightarrow> ([], False)),
      flusher = True\<rparr>"

definition example_handler :: SseEventHandler where
  "example_handler = \<lparr>OnInitialize = None, OnConnect = None, OnMessage = (\<lambda>m. False)\<rparr>"

definition example_world :: world where
  "example_world =
     \<lparr>factory = Some (Some example_handler), clients = Map.empty, heap = Map.empty,
      next_ref = 0, trace = []\<rparr>"

definition example_consumer :: Consumer where
  "example_consumer = \<lparr>Id = ''c1'', close_calls = 0\<rparr>"

text \<open>A callback request naming the client \<open>c1\<close> in its header and \<open>c2\<close> in its body.\<close>

definition example_callback_request :: Request where
  "example_callback_request =
     \<lparr>Accept = ''application/json'', X_Client_ID = ''c1'',
      request_params = Some [''client_id'' \<mapsto> String ''c2'', ''event'' \<mapsto> String ''chat_message'']\<rparr>"

section \<open>Lemmas\<close>

lemma session_ok_new: "session_ok (new_session c)"
  by (simp add: session_ok_def new_session_def make_chan_def)

lemma Close_ok:
  assumes "session_ok s"
  shows "\<exists>s'. Close s = Inr s' \<and> session_ok s' \<and> closed s' \<and> client_id s' = client_id s
           \<and> user_handler s' = user_handler s"
  using assms by (auto simp: session_ok_def Close_def close_chan_def Let_def)

lemma DirectMessage_ok:
  assumes "session_ok s"
  shows "\<exists>err s'. DirectMessage s msg = Inr (err, s') \<and> session_ok s' \<and> closed s' = closed s
           \<and> client_id s' = client_id s \<and> user_handler s' = user_handler s"
  using assms by (auto simp: session_ok_def DirectMessage_def try_send_def)

lemma write_frame_cases:
  "write_frame e msg ok w =
     (case Encode (json_Marshal e) msg of
        Inl err \<Rightarrow> Return (add_events [WriteError err] w)
      | Inr enc \<Rightarrow> (if ok then Continue else Return) (add_events [Write enc ok] w))"
  by (simp add: write_frame_def add_events_def emit_def split: sum.splits)

lemma deliver_trace:
  "\<exists>t'. deliver e now s msg ok (w, t) =
       Continue (add_events (deliver_events e (user_handler s) (client_id s) msg ok) w, t') \<or>
     deliver e now s msg ok (w, t) =
       Return (add_events (deliver_events e (user_handler s) (client_id s) msg ok) w, t')"
  by (cases "user_handler s"; cases "Encode (json_Marshal e) msg")
     (auto simp: deliver_def deliver_events_def write_frame_cases add_events_def emit_def)

lemma recv_ok:
  assumes "session_ok s" and "recv (direct_messages s) = (Value m, c)"
  shows "session_ok (s\<lparr>direct_messages := c\<rparr>)"
  using assms by (auto simp: session_ok_def recv_def split: list.splits)

lemma step_trace:
  assumes "heap w a = Some s" and "session_ok s"
  shows "\<exists>s' seg t'. session_ok s' \<and> user_handler s' = user_handler s \<and>
           client_id s' = client_id s \<and> turn e (user_handler s) (client_id s) seg \<and>
           (step e a x (w, t) = Continue (add_events seg (store a s' w), t') \<or>
            step e a x (w, t) = Return (add_events seg (store a s' w), t'))"
proof -
  obtain now occ where x: "x = (now, occ)" by (cases x)
  have same: "store a s w = w"
    using assms(1) by (simp add: store_def map_upd_triv)
  show ?thesis
  proof (cases occ)
    case (Recv_broadcast msg ok)
    have "step e a x (w, t) = deliver e now s msg ok (w, t)"
      using assms unfolding x Recv_broadcast by (simp add: step_def)
    moreover have "turn e (user_handler s) (client_id s)
        (deliver_events e (user_handler s) (client_id s) msg ok)"
      by (auto simp: turn_def)
    ultimately show ?thesis
      using deliver_trace [of e now s msg ok w t] same assms by metis
  next
    case Broadcast_closed
    with assms same show ?thesis
      unfolding x by (auto simp: step_def turn_def add_events_def intro!: exI [of _ s] exI [of _ "[]"])
  next
    case (Recv_direct ok)
    obtain rv c where rc: "recv (direct_messages s) = (rv, c)" by (cases "recv (direct_messages s)")
    show ?thesis
    proof (cases rv)
      case (Value m)
      let ?s' = "s\<lparr>direct_messages := c\<rparr>"
      have ok': "session_ok ?s'" using recv_ok assms(2) rc Value by blast
      have "step e a x (w, t) = deliver e now s m ok (store a ?s' w, t)"
        using assms rc Value unfolding x Recv_direct by (simp add: step_def)
      moreover have "turn e (user_handler s) (client_id s)
          (deliver_events e (user_handler s) (client_id s) m ok)"
        by (auto simp: turn_def)
      moreover have "user_handler ?s' = user_handler s" "client_id ?s' = client_id s" by simp_all
      ultimately show ?thesis
        using deliver_trace [of e now s m ok "store a ?s' w" t] ok' by metis
    next
      case Closed
      with rc assms same show ?thesis
        unfolding x Recv_direct
        by (auto simp: step_def turn_def add_events_def intro!: exI [of _ s] exI [of _ "[]"])
    next
      case NotReady
      with rc assms same show ?thesis
        unfolding x Recv_direct
        by (auto simp: step_def turn_def add_events_def intro!: exI [of _ s] exI [of _ "[]"])
    qed
  next
    case (Recv_tick ok)
    show ?thesis
    proof (cases "now < t")
      case True
      with assms same show ?thesis
        unfolding x Recv_tick
        by (auto simp: step_def turn_def add_events_def intro!: exI [of _ s] exI [of _ "[]"])
    next
      case False
      have "turn e (user_handler s) (client_id s) (ping_events e now ok)"
        by (auto simp: turn_def)
      moreover have "step e a x (w, t) = Continue (add_events (ping_events e now ok) w, next_tick t now) \<or>
          step e a x (w, t) = Return (add_events (ping_events e now ok) w, next_tick t now)"
        using False assms unfolding x Recv_tick
        by (cases "Encode (json_Marshal e) (pingMsg now)")
           (auto simp: step_def write_frame_cases ping_events_def add_events_def emit_def)
      ultimately show ?thesis using assms same by metis
    qed
  next
    case Recv_done
    with assms same show ?thesis
      unfolding x by (auto simp: step_def turn_def add_events_def intro!: exI [of _ s] exI [of _ "[]"])
  next
    case (Call_DirectMessage msg)
    from DirectMessage_ok [OF assms(2), of msg] obtain err s' where
      d: "DirectMessage s msg = Inr (err, s')" and s': "session_ok s'"
        "client_id s' = client_id s" "user_handler s' = user_handler s"
      by blast
    have "step e a x (w, t) = Continue (add_events [] (store a s' w), t)"
      using assms d unfolding x Call_DirectMessage
      by (simp add: step_def add_events_def)
    moreover have "turn e (user_handler s) (client_id s) []" by (simp add: turn_def)
    ultimately show ?thesis using s' by metis
  next
    case Call_Close
    from Close_ok [OF assms(2)] obtain s' where
      d: "Close s = Inr s'" and s': "session_ok s'"
        "client_id s' = client_id s" "user_handler s' = user_handler s"
      by blast
    have "step e a x (w, t) = Continue (add_events [SessionClose (client_id s)] (store a s' w), t)"
      using assms d unfolding x Call_Close
      by (simp add: step_def add_events_def store_def emit_def)
    moreover have "turn e (user_handler s) (client_id s) [SessionClose (client_id s)]"
      by (simp add: turn_def)
    ultimately show ?thesis using s' by metis
  qed
qed


lemma turns_Nil: "turns e uh c []"
  by (auto simp: turns_def intro: exI [of _ "[]"])

lemma turns_Cons: "turn e uh c seg \<Longrightarrow> turns e uh c evs \<Longrightarrow> turns e uh c (seg @ evs)"
  unfolding turns_def
proof -
  assume a: "turn e uh c seg" and "\<exists>segs. evs = concat segs \<and> list_all (turn e uh c) segs"
  then obtain segs where "evs = concat segs" "list_all (turn e uh c) segs" by blast
  with a have "seg @ evs = concat (seg # segs) \<and> list_all (turn e uh c) (seg # segs)" by simp
  then show "\<exists>segs. seg @ evs = concat segs \<and> list_all (turn e uh c) segs" by blast
qed

lemma add_events_store:
  "add_events evs (store a s2 (add_events seg (store a s1 w))) = add_events (seg @ evs) (store a s2 w)"
  by (simp add: add_events_def store_def)

lemma heap_add_events_store [simp]: "heap (add_events seg (store a s w)) a = Some s"
  by (simp add: add_events_def store_def)

lemma loop_trace:
  assumes "heap w a = Some s" and "session_ok s"
  shows "\<exists>s' evs t'. session_ok s' \<and> user_handler s' = user_handler s \<and>
           client_id s' = client_id s \<and> turns e (user_handler s) (client_id s) evs \<and>
           (loop e a xs (w, t) = Continue (add_events evs (store a s' w), t') \<or>
            loop e a xs (w, t) = Return (add_events evs (store a s' w), t'))"
  using assms
proof (induction xs arbitrary: w s t)
  case Nil
  have "store a s w = w" using Nil(1) by (simp add: store_def map_upd_triv)
  then have "loop e a [] (w, t) = Continue (add_events [] (store a s w), t)"
    by (simp add: add_events_def)
  with Nil turns_Nil show ?case by metis
next
  case (Cons x xs)
  from step_trace [OF Cons.prems, of e x t] obtain s1 seg t1 where
    s1: "session_ok s1" "user_handler s1 = user_handler s" "client_id s1 = client_id s"
    and seg: "turn e (user_handler s) (client_id s) seg"
    and st: "step e a x (w, t) = Continue (add_events seg (store a s1 w), t1) \<or>
             step e a x (w, t) = Return (add_events seg (store a s1 w), t1)"
    by blast
  from st show ?case
  proof
    assume r: "step e a x (w, t) = Return (add_events seg (store a s1 w), t1)"
    have "turns e (user_handler s) (client_id s) seg"
      using turns_Cons [OF seg turns_Nil] by simp
    moreover have "loop e a (x # xs) (w, t) = Return (add_events seg (store a s1 w), t1)"
      using r by simp
    ultimately show ?thesis using s1 by metis
  next
    assume c: "step e a x (w, t) = Continue (add_events seg (store a s1 w), t1)"
    let ?w1 = "add_events seg (store a s1 w)"
    have h1: "heap ?w1 a = Some s1" by simp
    from Cons.IH [OF h1 s1(1), of t1] obtain s2 evs t2 where
      s2: "session_ok s2" "user_handler s2 = user_handler s1" "client_id s2 = client_id s1"
      and evs: "turns e (user_handler s1) (client_id s1) evs"
      and l: "loop e a xs (?w1, t1) = Continue (add_events evs (store a s2 ?w1), t2) \<or>
              loop e a xs (?w1, t1) = Return (add_events evs (store a s2 ?w1), t2)"
      by blast
    have t: "turns e (user_handler s) (client_id s) (seg @ evs)"
      using turns_Cons [OF seg] evs s1 by simp
    have "loop e a (x # xs) (w, t) = loop e a xs (?w1, t1)" using c by simp
    with l have "loop e a (x # xs) (w, t) = Continue (add_events (seg @ evs) (store a s2 w), t2) \<or>
        loop e a (x # xs) (w, t) = Return (add_events (seg @ evs) (store a s2 w), t2)"
      by (simp add: add_events_store)
    with t s2 s1 show ?thesis by metis
  qed
qed


lemma stream_init_error:
  assumes "factory w = Some (Some h)" and "OnInitialize h = Some err"
  shows "\<exists>w' s'. stream e c t0 sched w = Returned w' \<and>
     trace w' = trace w @ [SetHeaders, RegistryInsert (Id c), HookOnInitialize (Id c),
            WriteError err, SessionClose (Id c), Cancel] \<and>
     clients w' = (clients w)(Id c \<mapsto> next_ref w) \<and>
     heap w' (next_ref w) = Some s' \<and> (\<forall>a'. a' \<noteq> next_ref w \<longrightarrow> heap w' a' = heap w a') \<and> closed s' \<and> user_handler s' = Some h \<and>
     client_id s' = Id c"
  using assms
  by (simp add: stream_def register_session_def initialize_def return_from_def
      run_deferred1_def emit_def store_def new_session_def make_chan_def Close_def close_chan_def
      Consumer_Close_def Let_def)

lemma stream_connect_error:
  assumes "factory w = Some (Some h)" and "OnInitialize h = None" and "OnConnect h = Some err"
  shows "\<exists>w' s'. stream e c t0 sched w = Returned w' \<and>
     trace w' = trace w @ [SetHeaders, RegistryInsert (Id c), HookOnInitialize (Id c),
            HookOnConnect (Id c), WriteError err, RegistryDelete (Id c), HookOnDisconnect (Id c),
            SessionClose (Id c), Cancel] \<and>
     clients w' = (clients w)(Id c := None) \<and>
     heap w' (next_ref w) = Some s' \<and> (\<forall>a'. a' \<noteq> next_ref w \<longrightarrow> heap w' a' = heap w a') \<and> closed s' \<and> user_handler s' = Some h \<and>
     client_id s' = Id c"
  using assms
  by (simp add: stream_def register_session_def initialize_def connect_def return_from_def
      run_deferred1_def emit_def store_def new_session_def make_chan_def Close_def close_chan_def
      DirectMessage_def try_send_def Consumer_Close_def Let_def)

lemmas setup_defs = register_session_def initialize_def connect_def emit_def store_def
  new_session_def make_chan_def DirectMessage_def try_send_def

lemma handler_of_cases:
  "(handler_of w = None \<and> (factory w = None \<or> factory w = Some None)) \<or>
   (\<exists>h. handler_of w = Some h \<and> factory w = Some (Some h))"
  by (auto simp: handler_of_def split: option.splits)

lemma stream_loop:
  assumes "\<And>h. handler_of w = Some h \<Longrightarrow> OnInitialize h = None \<and> OnConnect h = None"
  shows "stream e c t0 sched w =
     (case loop e (next_ref w) sched (established c w, t0 + pingInterval) of
        Continue (w', t') \<Rightarrow> Blocked w' t'
      | Return (w', t') \<Rightarrow> return_from (next_ref w) loop_defers w'
      | Panics p \<Rightarrow> Panicked p)"
  using handler_of_cases [of w] assms
  by (auto simp: stream_def established_def setup_defs loop_defers_def Let_def
      cong: flow.case_cong)


lemma established_clients: "clients (established c w) = (clients w)(Id c \<mapsto> next_ref w)"
  using handler_of_cases [of w]
  by (auto simp: established_def setup_defs Let_def)

lemma established_heap_other: "a' \<noteq> next_ref w \<Longrightarrow> heap (established c w) a' = heap w a'"
  using handler_of_cases [of w]
  by (auto simp: established_def setup_defs Let_def)

lemma established_session:
  "\<exists>s. heap (established c w) (next_ref w) = Some s \<and> session_ok s \<and>
     user_handler s = handler_of w \<and> client_id s = Id c \<and> \<not> closed s \<and>
     buffer (direct_messages s) = [on_connect_message (Id c)]"
  using handler_of_cases [of w]
  by (auto simp: established_def setup_defs session_ok_def Let_def)

lemma return_from_loop:
  assumes "heap w a = Some s" and "session_ok s"
  shows "\<exists>w' s'. return_from a loop_defers w = Returned w' \<and>
     trace w' = trace w @ [TickerStop, RegistryDelete (client_id s)] @
            (case user_handler s of Some h \<Rightarrow> [HookOnDisconnect (client_id s)] | None \<Rightarrow> []) @
            [SessionClose (client_id s), Cancel] \<and>
     clients w' = (clients w)(client_id s := None) \<and>
     heap w' a = Some s' \<and> (\<forall>a'. a' \<noteq> a \<longrightarrow> heap w' a' = heap w a') \<and> closed s' \<and> session_ok s' \<and>
     user_handler s' = user_handler s \<and> client_id s' = client_id s"
proof -
  from Close_ok [OF assms(2)] obtain s' where
    c: "Close s = Inr s'" and s': "session_ok s'" "closed s'" "client_id s' = client_id s"
      "user_handler s' = user_handler s"
    by blast
  show ?thesis
    using assms(1) c s'
    by (cases "user_handler s")
       (simp_all add: return_from_def loop_defers_def run_deferred1_def emit_def store_def)
qed


lemma deliver_events_set:
  assumes "ev \<in> set (deliver_events e uh c msg ok)"
  shows "ev = HookOnMessage c msg \<or> (\<exists>b. ev = Write b ok) \<or> (\<exists>err. ev = WriteError err) \<or>
         ev = Flush \<or> ev = TickerReset"
  using assms
  by (cases uh; cases "Encode (json_Marshal e) msg")
     (auto simp: deliver_events_def split: if_splits)

lemma ping_events_set:
  assumes "ev \<in> set (ping_events e now ok)"
  shows "(\<exists>b. ev = Write b ok) \<or> (\<exists>err. ev = WriteError err) \<or> ev = Flush"
  using assms
  by (cases "Encode (json_Marshal e) (pingMsg now)") (auto simp: ping_events_def split: if_splits)



lemma stream_loop_result:
  assumes "\<And>h. handler_of w = Some h \<Longrightarrow> OnInitialize h = None \<and> OnConnect h = None"
  shows "\<exists>w' evs s'. turns e (handler_of w) (Id c) evs \<and>
     heap w' (next_ref w) = Some s' \<and> session_ok s' \<and> user_handler s' = handler_of w \<and>
     client_id s' = Id c \<and> (\<forall>a'. a' \<noteq> next_ref w \<longrightarrow> heap w' a' = heap w a') \<and>
     ((\<exists>t'. stream e c t0 sched w = Blocked w' t' \<and>
         trace w' = trace (established c w) @ evs \<and>
         clients w' = (clients w)(Id c \<mapsto> next_ref w)) \<or>
      (stream e c t0 sched w = Returned w' \<and>
         trace w' = trace (established c w) @ evs @ [TickerStop, RegistryDelete (Id c)] @
            (case handler_of w of Some h \<Rightarrow> [HookOnDisconnect (Id c)] | None \<Rightarrow> []) @
            [SessionClose (Id c), Cancel] \<and>
         clients w' = (clients w)(Id c := None) \<and> closed s'))"
proof -
  let ?a = "next_ref w" and ?W = "established c w"
  from established_session [of c w] obtain s where
    s: "heap ?W ?a = Some s" "session_ok s" "user_handler s = handler_of w" "client_id s = Id c"
    by blast
  from loop_trace [OF s(1,2), of e sched "t0 + pingInterval"] obtain s1 evs t1 where
    s1: "session_ok s1" "user_handler s1 = user_handler s" "client_id s1 = client_id s"
    and evs: "turns e (user_handler s) (client_id s) evs"
    and l: "loop e ?a sched (?W, t0 + pingInterval) = Continue (add_events evs (store ?a s1 ?W), t1) \<or>
            loop e ?a sched (?W, t0 + pingInterval) = Return (add_events evs (store ?a s1 ?W), t1)"
    by blast
  let ?W1 = "add_events evs (store ?a s1 ?W)"
  have W1: "heap ?W1 ?a = Some s1" "trace ?W1 = trace ?W @ evs"
    "clients ?W1 = (clients w)(Id c \<mapsto> ?a)" "\<forall>a'. a' \<noteq> ?a \<longrightarrow> heap ?W1 a' = heap w a'"
    by (simp_all add: add_events_def store_def established_clients established_heap_other)
  from l show ?thesis
  proof
    assume "loop e ?a sched (?W, t0 + pingInterval) = Continue (?W1, t1)"
    then have "stream e c t0 sched w = Blocked ?W1 t1"
      by (simp add: stream_loop [OF assms])
    with W1 s1 s evs show ?thesis by metis
  next
    assume "loop e ?a sched (?W, t0 + pingInterval) = Return (?W1, t1)"
    then have st: "stream e c t0 sched w = return_from ?a loop_defers ?W1"
      by (simp add: stream_loop [OF assms])
    from return_from_loop [OF W1(1) s1(1)] obtain w' s' where
      r: "return_from ?a loop_defers ?W1 = Returned w'"
      and w': "trace w' = trace ?W1 @ [TickerStop, RegistryDelete (client_id s1)] @
            (case user_handler s1 of Some h \<Rightarrow> [HookOnDisconnect (client_id s1)] | None \<Rightarrow> []) @
            [SessionClose (client_id s1), Cancel]"
        "clients w' = (clients ?W1)(client_id s1 := None)"
        "heap w' ?a = Some s'" "\<forall>a'. a' \<noteq> ?a \<longrightarrow> heap w' a' = heap ?W1 a'"
        "closed s'" "session_ok s'" "user_handler s' = user_handler s1" "client_id s' = client_id s1"
      by blast
    have "stream e c t0 sched w = Returned w'" using st r by simp
    moreover have "trace w' = trace ?W @ evs @ [TickerStop, RegistryDelete (Id c)] @
            (case handler_of w of Some h \<Rightarrow> [HookOnDisconnect (Id c)] | None \<Rightarrow> []) @
            [SessionClose (Id c), Cancel]"
      using w'(1) W1(2) s1 s by (simp cong: option.case_cong)
    moreover have "clients w' = (clients w)(Id c := None)"
      using w'(2) W1(3) s1 s by simp
    moreover have "\<forall>a'. a' \<noteq> ?a \<longrightarrow> heap w' a' = heap w a'"
      using w'(4) W1(4) by simp
    ultimately show ?thesis using w' s1 s evs by metis
  qed
qed

lemma Split_nonempty: "Split s c \<noteq> []"
  by (induction s) (auto split: list.splits)

lemma index0_Split: "index0 (Split s c) = Inr (takeWhile (\<lambda>x. x \<noteq> c) s)"
proof (induction s)
  case Nil
  show ?case by (simp add: index0_def)
next
  case (Cons x xs)
  then show ?case
    using Split_nonempty [of xs c]
    by (auto simp: index0_def split: list.splits)
qed

lemma containsAcceptType_loop_iff:
  "containsAcceptType_loop parts t =
     Inr (\<exists>part \<in> set parts. TrimSpace (takeWhile (\<lambda>c. c \<noteq> CHR '';'') part) = t)"
  by (induction parts) (auto simp: index0_Split)

lemma accepts_with_charset: "containsAcceptType ''text/event-stream;charset=utf-8'' ''text/event-stream'' = Inr True"
  by code_simp
lemma rejects_wildcard: "containsAcceptType ''*/*'' ''text/event-stream'' = Inr False"
  by code_simp
lemma rejects_longer_type: "containsAcceptType ''text/event-stream2'' ''text/event-stream'' = Inr False"
  by code_simp
lemma handleCallback_frame:
  "handleCallback e r w = Inr w' \<Longrightarrow>
     clients w' = clients w \<and> heap w' = heap w \<and> next_ref w' = next_ref w \<and> factory w' = factory w"
  by (auto simp: handleCallback_def Let_def emit_def split: if_splits option.splits)

lemma trace_add_events [simp]: "trace (add_events evs w) = trace w @ evs"
  by (simp add: add_events_def)

lemma trace_store [simp]: "trace (store a s w) = trace w"
  by (simp add: store_def)

lemma deliver_ends_in:
  assumes "ends_in (deliver e now s msg ok (w, t)) w'"
  shows "trace w' = trace w @ deliver_events e (user_handler s) (client_id s) msg ok"
  using assms deliver_trace [of e now s msg ok w t]
  by (auto simp: ends_in_def)

lemma step_events:
  assumes "heap w a = Some s" and "ends_in (step e a x (w, t)) w'"
  shows "trace w' = trace w @ occurrence_events e s t x"
proof -
  obtain now occ where x: "x = (now, occ)" by (cases x)
  show ?thesis
  proof (cases occ)
    case (Recv_broadcast msg ok)
    with assms x have "ends_in (deliver e now s msg ok (w, t)) w'" by (simp add: step_def)
    from deliver_ends_in [OF this] show ?thesis
      by (simp add: occurrence_events_def x Recv_broadcast)
  next
    case Broadcast_closed
    with assms x show ?thesis
      by (auto simp: step_def ends_in_def occurrence_events_def)
  next
    case (Recv_direct ok)
    show ?thesis
    proof (cases "buffer (direct_messages s)")
      case Nil
      with assms x Recv_direct show ?thesis
        by (auto simp: step_def ends_in_def occurrence_events_def recv_def split: if_splits)
    next
      case (Cons msg rest)
      with assms x Recv_direct have
        "ends_in (deliver e now s msg ok (store a (s\<lparr>direct_messages := (direct_messages s)\<lparr>buffer := rest\<rparr>\<rparr>) w, t)) w'"
        by (simp add: step_def recv_def)
      from deliver_ends_in [OF this] show ?thesis
        by (simp add: occurrence_events_def x Recv_direct Cons)
    qed
  next
    case (Recv_tick ok)
    with assms x show ?thesis
      by (cases "Encode (json_Marshal e) (pingMsg now)")
         (auto simp: step_def ends_in_def occurrence_events_def write_frame_cases ping_events_def
           emit_def split: if_splits)
  next
    case Recv_done
    with assms x show ?thesis
      by (auto simp: step_def ends_in_def occurrence_events_def)
  next
    case (Call_DirectMessage msg)
    with assms x show ?thesis
      by (auto simp: step_def ends_in_def occurrence_events_def split: sum.splits)
  next
    case Call_Close
    with assms x show ?thesis
      by (auto simp: step_def ends_in_def occurrence_events_def emit_def split: sum.splits)
  qed
qed

lemmas example_defs = example_env_def example_handler_def example_world_def example_consumer_def
  example_Marshal_def

lemmas run_defs = stream_def register_session_def initialize_def connect_def return_from_def
  run_deferred1_def step_def deliver_def write_frame_def Encode_def emit_def store_def
  new_session_def make_chan_def DirectMessage_def Close_def close_chan_def try_send_def recv_def
  Consumer_Close_def on_connect_message_def pingMsg_def pingInterval_def next_tick_def Event_def
  CRLF_def



lemma HttpParameterT_eq:
  "HttpParameterT e r name =
     (case request_params r of
        None \<Rightarrow> ([], False)
      | Some params \<Rightarrow> (case params name of None \<Rightarrow> ([], False) | Some v \<Rightarrow> ConvertInto e v))"
  by (simp add: HttpParameterT_def HttpParameterGeneric_def HttpParameters_def
      split: option.splits)

lemma callback_clientID_eq:
  "callback_clientID e r = first_nonempty (callback_candidates e r)"
  by (auto simp: callback_clientID_def first_nonempty_def callback_candidates_def
      parameter_or_empty_def HttpParameterT_eq Let_def split: option.splits prod.splits)

lemma rejects_json: "containsAcceptType ''application/json'' ''text/event-stream'' = Inr False"
  by code_simp

lemma accepts_second_entry: "containsAcceptType ''text/html, text/event-stream ;q=0.9'' ''text/event-stream'' = Inr True"
  by code_simp

lemma example_callback_unknown:
  "handleCallback example_env example_callback_request example_world =
     Inr (emit (WriteError ErrClientNotFound) example_world)"
  by (simp add: handleCallback_def callback_clientID_def example_callback_request_def
      example_world_def Let_def)


lemma Split_join: "concat (map (\<lambda>p. sep # p) (Split s sep)) = sep # s"
  by (induction s) (auto split: list.splits)

lemma Split_parts: "p \<in> set (Split s sep) \<Longrightarrow> sep \<notin> set p"
  by (induction s arbitrary: p) (auto split: list.splits if_splits)

lemma step_since:
  assumes "heap w a = Some s" and "ends_in (step e a x (w, t)) w'"
  shows "since w w' = occurrence_events e s t x"
  using step_events [OF assms] by (simp add: since_def)

lemma loop_since:
  assumes "heap w a = Some s" and "session_ok s" and "ends_in (loop e a xs (w, t)) w'"
  shows "turns e (user_handler s) (client_id s) (since w w')"
  using loop_trace [OF assms(1,2), of e xs t] assms(3)
  by (auto simp: ends_in_def since_def)

lemma Write_in_deliver_events:
  assumes "Write b ok' \<in> set (deliver_events e uh c msg ok)"
  shows "\<exists>j. json_Marshal e msg = Inr j \<and> b = ''data: '' @ j @ CRLF @ CRLF"
  using assms
  by (cases uh; cases "json_Marshal e msg")
     (auto simp: deliver_events_def Encode_def split: if_splits)

lemma Write_in_ping_events:
  assumes "Write b ok' \<in> set (ping_events e now ok)"
  shows "\<exists>j. json_Marshal e (pingMsg now) = Inr j \<and> b = ''data: '' @ j @ CRLF @ CRLF"
  using assms
  by (cases "json_Marshal e (pingMsg now)")
     (auto simp: ping_events_def Encode_def split: if_splits)

lemma Write_in_turns:
  assumes "turns e uh c evs" and "Write b ok \<in> set evs"
  shows "\<exists>msg j. json_Marshal e msg = Inr j \<and> b = ''data: '' @ j @ CRLF @ CRLF"
proof -
  from assms obtain segs where "evs = concat segs" and all: "list_all (turn e uh c) segs"
    by (auto simp: turns_def)
  with assms(2) obtain seg where "seg \<in> set segs" and in_seg: "Write b ok \<in> set seg" by auto
  with all have "turn e uh c seg" by (simp add: list_all_iff)
  then consider "seg = []" | "seg = [SessionClose c]"
    | msg ok' where "seg = deliver_events e uh c msg ok'"
    | now ok' where "seg = ping_events e now ok'"
    by (auto simp: turn_def)
  then show ?thesis
  proof cases
    case 1
    with in_seg show ?thesis by simp
  next
    case 2
    with in_seg show ?thesis by simp
  next
    case 3
    with in_seg Write_in_deliver_events show ?thesis by blast
  next
    case 4
    with in_seg Write_in_ping_events show ?thesis by blast
  qed
qed

lemma deliver_events_accepted:
  assumes "\<And>h. uh = Some h \<Longrightarrow> OnMessage h msg" and "json_Marshal e msg = Inr j"
  shows "deliver_events e uh c msg ok =
     (case uh of Some h \<Rightarrow> [HookOnMessage c msg] | None \<Rightarrow> []) @
     Write (''data: '' @ j @ CRLF @ CRLF) ok # (if ok \<and> flusher e then [Flush, TickerReset] else [])"
  using assms by (cases uh) (auto simp: deliver_events_def Encode_def)

lemma step_ends:
  assumes "heap w a = Some s" and "session_ok s"
  shows "\<exists>w'. ends_in (step e a x (w, t)) w'"
  using step_trace [OF assms, of e x t] by (auto simp: ends_in_def)

lemma filtered_append:
  "filtered_from e h c prev (xs @ ys) =
     (filtered_from e h c prev xs \<and>
      filtered_from e h c (if xs = [] then prev else Some (last xs)) ys)"
  by (induction xs arbitrary: prev) auto

lemma filtered_deliver: "filtered_from e h c prev (deliver_events e (Some h) c msg ok)"
  by (cases "Encode (json_Marshal e) msg") (auto simp: deliver_events_def)

lemma filtered_ping: "filtered_from e h c prev (ping_events e now ok)"
  by (cases "Encode (json_Marshal e) (pingMsg now)") (auto simp: ping_events_def is_ping_def)

lemma filtered_turn:
  assumes "turn e (Some h) c seg"
  shows "filtered_from e h c prev seg"
  using assms filtered_deliver filtered_ping by (auto simp: turn_def)

lemma filtered_concat:
  assumes "list_all (turn e (Some h) c) segs"
  shows "filtered_from e h c prev (concat segs)"
  using assms
proof (induction segs arbitrary: prev)
  case Nil
  show ?case by simp
next
  case (Cons seg segs)
  then show ?case by (simp add: filtered_append filtered_turn)
qed

lemma filtered_turns:
  assumes "turns e (Some h) c evs"
  shows "filtered_from e h c prev evs"
  using assms filtered_concat by (auto simp: turns_def)

lemma deliver_ends:
  "\<exists>w'. ends_in (deliver e now s msg ok (w, t)) w'"
  using deliver_trace [of e now s msg ok w t] by (auto simp: ends_in_def)









lemma stream_never_panics: "stream e c t0 sched w \<noteq> Panicked p"
proof (cases "\<exists>h. handler_of w = Some h \<and> (OnInitialize h \<noteq> None \<or> OnConnect h \<noteq> None)")
  case True
  then obtain h where h: "handler_of w = Some h" "OnInitialize h \<noteq> None \<or> OnConnect h \<noteq> None"
    by blast
  then have f: "factory w = Some (Some h)" using handler_of_cases [of w] by auto
  show ?thesis
  proof (cases "OnInitialize h")
    case None
    with h obtain err where "OnConnect h = Some err" by auto
    from stream_connect_error [OF f None this, of e c t0 sched] show ?thesis by auto
  next
    case (Some err)
    from stream_init_error [OF f Some, of e c t0 sched] show ?thesis by auto
  qed
next
  case False
  then have "OnInitialize h = None \<and> OnConnect h = None" if "handler_of w = Some h" for h
    using that by auto
  from stream_loop_result [of w e c t0 sched, OF this] show ?thesis by auto
qed

lemma Close_released:
  assumes "session_ok s" and "released n s" and "Close s = Inr s'"
  shows "released n s' \<and> closed s' \<and> session_ok s'"
  using assms
  by (auto simp: session_ok_def released_def Close_def close_chan_def Consumer_Close_def Let_def
      split: if_splits)

lemma deliver_heap:
  assumes "ends_in (deliver e now s msg ok (w, t)) w'"
  shows "heap w' = heap w"
  using assms deliver_trace [of e now s msg ok w t]
  by (auto simp: ends_in_def add_events_def)

lemma self_update: "\<exists>c. s = s\<lparr>direct_messages := c\<rparr>"
  by (rule exI [of _ "direct_messages s"]) simp

lemma DirectMessage_shape:
  assumes "DirectMessage s msg = Inr (err, s')"
  shows "\<exists>c. s' = s\<lparr>direct_messages := c\<rparr>"
proof (cases "s' = s")
  case True
  with self_update [of s] show ?thesis by simp
next
  case False
  with assms show ?thesis
    by (auto simp: DirectMessage_def split: if_splits sum.splits option.splits)
qed

lemma step_session:
  assumes "heap w a = Some s" and "ends_in (step e a x (w, t)) w'"
  shows "\<exists>s'. heap w' a = Some s' \<and>
     ((\<exists>c. s' = s\<lparr>direct_messages := c\<rparr>) \<or> (snd x = Call_Close \<and> Close s = Inr s'))"
proof -
  obtain now occ where x: "x = (now, occ)" by (cases x)
  note same = self_update [of s]
  show ?thesis
  proof (cases occ)
    case (Recv_broadcast msg ok)
    with assms x have "ends_in (deliver e now s msg ok (w, t)) w'" by (simp add: step_def)
    from deliver_heap [OF this] assms(1) have "heap w' a = Some s" by simp
    with same show ?thesis by blast
  next
    case Broadcast_closed
    with assms x have "w' = w" by (auto simp: step_def ends_in_def)
    with assms(1) have "heap w' a = Some s" by simp
    with same show ?thesis by blast
  next
    case (Recv_direct ok)
    show ?thesis
    proof (cases "buffer (direct_messages s)")
      case Nil
      with assms x Recv_direct have "w' = w"
        by (auto simp: step_def ends_in_def recv_def split: if_splits)
      with assms(1) have "heap w' a = Some s" by simp
    with same show ?thesis by blast
    next
      case (Cons msg rest)
      let ?s' = "s\<lparr>direct_messages := (direct_messages s)\<lparr>buffer := rest\<rparr>\<rparr>"
      from Cons assms x Recv_direct have
        "ends_in (deliver e now s msg ok (store a ?s' w, t)) w'"
        by (simp add: step_def recv_def)
      from deliver_heap [OF this] have "heap w' a = Some ?s'" by (simp add: store_def)
      then show ?thesis by blast
    qed
  next
    case (Recv_tick ok)
    with assms x have "heap w' = heap w"
      by (cases "Encode (json_Marshal e) (pingMsg now)")
         (auto simp: step_def ends_in_def write_frame_cases add_events_def emit_def split: if_splits)
    with assms(1) have "heap w' a = Some s" by simp
    with same show ?thesis by blast
  next
    case Recv_done
    with assms x have "w' = w" by (auto simp: step_def ends_in_def)
    with assms(1) have "heap w' a = Some s" by simp
    with same show ?thesis by blast
  next
    case (Call_DirectMessage msg)
    with assms x obtain err s' where d: "DirectMessage s msg = Inr (err, s')" and "w' = store a s' w"
      by (auto simp: step_def ends_in_def split: sum.splits)
    then have "heap w' a = Some s'" by (simp add: store_def)
    with DirectMessage_shape [OF d] show ?thesis by blast
  next
    case Call_Close
    with assms x show ?thesis
      by (auto simp: step_def ends_in_def store_def emit_def split: sum.splits)
  qed
qed

lemma occurrence_no_SessionClose:
  assumes "snd x \<noteq> Call_Close"
  shows "SessionClose c' \<notin> set (occurrence_events e s t x)"
proof
  assume a: "SessionClose c' \<in> set (occurrence_events e s t x)"
  show False
  proof (cases "snd x")
    case (Recv_broadcast msg ok)
    with a deliver_events_set [of "SessionClose c'" e "user_handler s" "client_id s" msg ok]
    show False by (auto simp: occurrence_events_def)
  next
    case Broadcast_closed
    with a show False by (simp add: occurrence_events_def)
  next
    case (Recv_direct ok)
    with a deliver_events_set [of "SessionClose c'" e "user_handler s" "client_id s" _ ok]
    show False by (auto simp: occurrence_events_def split: list.splits)
  next
    case (Recv_tick ok)
    with a ping_events_set [of "SessionClose c'" e "fst x" ok]
    show False by (auto simp: occurrence_events_def split: if_splits)
  next
    case Recv_done
    with a show False by (simp add: occurrence_events_def)
  next
    case (Call_DirectMessage msg)
    with a show False by (simp add: occurrence_events_def)
  next
    case Call_Close
    with assms show False by simp
  qed
qed

lemma loop_release:
  assumes "heap w a = Some s" and "session_ok s" and "released n s"
    and "ends_in (loop e a xs (w, t)) w'"
  shows "\<exists>s' evs. heap w' a = Some s' \<and> session_ok s' \<and> released n s' \<and>
     trace w' = trace w @ evs \<and>
     ((\<forall>y \<in> set xs. snd y \<noteq> Call_Close) \<longrightarrow>
        closed s' = closed s \<and> (\<forall>c'. SessionClose c' \<notin> set evs))"
  using assms
proof (induction xs arbitrary: w s t)
  case Nil
  then have "w' = w" by (auto simp: ends_in_def)
  with Nil have "heap w' a = Some s \<and> session_ok s \<and> released n s \<and> trace w' = trace w @ [] \<and>
     ((\<forall>y \<in> set []. snd y \<noteq> Call_Close) \<longrightarrow>
        closed s = closed s \<and> (\<forall>c'. SessionClose c' \<notin> set []))"
    by simp
  then show ?case by blast
next
  case (Cons x xs)
  from step_trace [OF Cons.prems(1,2), of e x t] obtain s1 seg t1 where
    s1: "session_ok s1"
    and st: "step e a x (w, t) = Continue (add_events seg (store a s1 w), t1) \<or>
             step e a x (w, t) = Return (add_events seg (store a s1 w), t1)"
    by blast
  let ?w1 = "add_events seg (store a s1 w)"
  let ?ev = "occurrence_events e s t x"
  have e1: "ends_in (step e a x (w, t)) ?w1" using st by (auto simp: ends_in_def)
  have h1: "heap ?w1 a = Some s1" by simp
  from step_session [OF Cons.prems(1) e1] h1
  have rel: "(\<exists>c. s1 = s\<lparr>direct_messages := c\<rparr>) \<or> (snd x = Call_Close \<and> Close s = Inr s1)"
    by simp
  have r1: "released n s1"
  proof -
    from rel show ?thesis
    proof
      assume "\<exists>c. s1 = s\<lparr>direct_messages := c\<rparr>"
      with Cons.prems(3) show ?thesis by (auto simp: released_def)
    next
      assume "snd x = Call_Close \<and> Close s = Inr s1"
      with Close_released [OF Cons.prems(2,3)] show ?thesis by blast
    qed
  qed
  have c1: "closed s1 = closed s" if "snd x \<noteq> Call_Close"
    using rel that by auto
  have tr1: "trace ?w1 = trace w @ ?ev"
    using step_events [OF Cons.prems(1) e1] .
  have n1: "\<forall>c'. SessionClose c' \<notin> set ?ev" if "snd x \<noteq> Call_Close"
    using occurrence_no_SessionClose [OF that] by blast
  from st show ?case
  proof
    assume r: "step e a x (w, t) = Return (?w1, t1)"
    with Cons.prems(4) have w': "w' = ?w1" by (auto simp: ends_in_def)
    have "heap w' a = Some s1 \<and> session_ok s1 \<and> released n s1 \<and> trace w' = trace w @ ?ev \<and>
     ((\<forall>y \<in> set (x # xs). snd y \<noteq> Call_Close) \<longrightarrow>
        closed s1 = closed s \<and> (\<forall>c'. SessionClose c' \<notin> set ?ev))"
      using w' h1 s1 r1 tr1 c1 n1 by simp
    then show ?thesis by blast
  next
    assume c: "step e a x (w, t) = Continue (?w1, t1)"
    with Cons.prems(4) have "ends_in (loop e a xs (?w1, t1)) w'" by simp
    from Cons.IH [OF h1 s1 r1 this] obtain s' evs where
      s': "heap w' a = Some s'" "session_ok s'" "released n s'" "trace w' = trace ?w1 @ evs"
        "(\<forall>y \<in> set xs. snd y \<noteq> Call_Close) \<longrightarrow>
           closed s' = closed s1 \<and> (\<forall>c'. SessionClose c' \<notin> set evs)"
      by blast
    have t: "trace w' = trace w @ (?ev @ evs)"
      using s'(4) tr1 by simp
    have "closed s' = closed s \<and> (\<forall>c'. SessionClose c' \<notin> set (?ev @ evs))"
      if "\<forall>y \<in> set (x # xs). snd y \<noteq> Call_Close"
    proof -
      from that have x: "snd x \<noteq> Call_Close" and xs: "\<forall>y \<in> set xs. snd y \<noteq> Call_Close"
        by simp_all
      from s'(5) xs c1 [OF x] n1 [OF x] show ?thesis by simp
    qed
    with t s'(1,2,3) show ?thesis by blast
  qed
qed

lemma established_released:
  assumes "heap (established c w) (next_ref w) = Some s"
  shows "released (close_calls c) s \<and> \<not> closed s"
  using assms handler_of_cases [of w]
  by (auto simp: established_def setup_defs released_def Let_def)

lemma return_from_loop_release:
  assumes "heap w a = Some s" and "session_ok s" and "released n s"
    and "return_from a loop_defers w = Returned w'"
  shows "\<exists>s'. heap w' a = Some s' \<and> closed s' \<and> session_ok s' \<and> released n s' \<and>
     trace w' = trace w @ [TickerStop, RegistryDelete (client_id s)] @
            (case user_handler s of Some h \<Rightarrow> [HookOnDisconnect (client_id s)] | None \<Rightarrow> []) @
            [SessionClose (client_id s), Cancel] \<and>
     clients w' = (clients w)(client_id s := None)"
proof -
  from Close_ok [OF assms(2)] obtain s' where c: "Close s = Inr s'" by blast
  from Close_released [OF assms(2,3) c] have s': "released n s'" "closed s'" "session_ok s'"
    by simp_all
  show ?thesis
    using assms(1,4) c s'
    by (cases "user_handler s")
       (auto simp: return_from_def loop_defers_def run_deferred1_def emit_def store_def)
qed

lemma stream_connect_error_release:
  assumes "factory w = Some (Some h)" and "OnInitialize h = None" and "OnConnect h = Some err"
  shows "\<exists>w' s'. stream e c t0 sched w = Returned w' \<and>
     heap w' (next_ref w) = Some s' \<and> closed s' \<and> is_closed (done_chan s') \<and>
     is_closed (direct_messages s') \<and>
     close_calls (broadcast_messages s') = close_calls c + 1"
  using assms
  by (simp add: stream_def register_session_def initialize_def connect_def return_from_def
      run_deferred1_def emit_def store_def new_session_def make_chan_def Close_def close_chan_def
      DirectMessage_def try_send_def Consumer_Close_def Let_def)

lemma stream_returned_loop:
  assumes "\<And>h. handler_of w = Some h \<Longrightarrow> OnInitialize h = None \<and> OnConnect h = None"
    and "stream e c t0 sched w = Returned w'"
  shows "\<exists>w1 t1. ends_in (loop e (next_ref w) sched (established c w, t0 + pingInterval)) w1 \<and>
     return_from (next_ref w) loop_defers w1 = Returned w'"
  using assms(2)
  by (auto simp: stream_loop [OF assms(1)] ends_in_def split: flow.splits)

section \<open>The claims\<close>

subsection \<open>Sessions: \<open>DirectMessage\<close> and \<open>Close\<close>\<close>

text \<open>
  C5. Once \<open>Close\<close> has returned on a session, every later \<open>DirectMessage\<close>, whatever
  the message, fails with the error \<open>session closed\<close> and leaves the session, its queue
  included, as it was.
\<close>

theorem DirectMessage_after_Close:
  assumes "Close s = Inr s'"
  shows "DirectMessage s' msg = Inr (Some ErrSessionClosed, s')"
proof -
  have "closed s'"
    using assms
    by (auto simp: Close_def close_chan_def Let_def split: if_splits sum.splits)
  then show ?thesis
    by (simp add: DirectMessage_def)
qed

theorem DirectMessage_after_Close_witness:
  "\<exists>s'. Close (new_session \<lparr>Id = ''c1'', close_calls = 0\<rparr>) = Inr s' \<and>
     DirectMessage s' [''event'' \<mapsto> String ''x''] = Inr (Some ErrSessionClosed, s')"
proof -
  obtain s' where c: "Close (new_session \<lparr>Id = ''c1'', close_calls = 0\<rparr>) = Inr s'"
    using Close_ok [OF session_ok_new] by blast
  from DirectMessage_after_Close [OF c] c show ?thesis by blast
qed

text \<open>
  C6. \<open>Close\<close> is idempotent. On a session of the server the first call returns without
  panic with the flag set, both channels closed and the consumer released; a second call
  returns the very same session, again without panic, so each resource is released once:
  the consumer's \<open>Close\<close> has been called once more than before the first call when
  the session was open, and not at all when it was closed already, in which case the
  first call changes nothing either. The flag goes from false to true in the first call
  at most and never back.
\<close>

theorem Close_idempotent:
  assumes "session_ok s"
  shows "\<exists>s'. Close s = Inr s' \<and> Close s' = Inr s' \<and> closed s' \<and>
           is_closed (done_chan s') \<and> is_closed (direct_messages s') \<and>
           close_calls (broadcast_messages s') =
             (if closed s then close_calls (broadcast_messages s)
              else close_calls (broadcast_messages s) + 1) \<and>
           (closed s \<longrightarrow> s' = s)"
proof (cases "closed s")
  case True
  then have "Close s = Inr s" by (simp add: Close_def)
  with True assms show ?thesis by (auto simp: session_ok_def)
next
  case False
  with assms obtain s' where c: "Close s = Inr s'"
    and s': "s' = s\<lparr>closed := True, done_chan := (done_chan s)\<lparr>is_closed := True\<rparr>,
        broadcast_messages := Consumer_Close (broadcast_messages s),
        direct_messages := (direct_messages s)\<lparr>is_closed := True\<rparr>\<rparr>"
    by (auto simp: session_ok_def Close_def close_chan_def Let_def)
  have "Close s' = Inr s'" by (simp add: s' Close_def)
  with c False show ?thesis by (auto simp: s' Consumer_Close_def)
qed

theorem Close_idempotent_witness:
  "\<exists>s'. Close (new_session \<lparr>Id = ''c1'', close_calls = 0\<rparr>) = Inr s' \<and> Close s' = Inr s' \<and>
     closed s' \<and> is_closed (done_chan s') \<and> is_closed (direct_messages s') \<and>
     close_calls (broadcast_messages s') = 1"
proof -
  have "\<not> closed (new_session \<lparr>Id = ''c1'', close_calls = 0\<rparr>)"
    and "close_calls (broadcast_messages (new_session \<lparr>Id = ''c1'', close_calls = 0\<rparr>)) = 0"
    by (simp_all add: new_session_def)
  with Close_idempotent [OF session_ok_new, of "\<lparr>Id = ''c1'', close_calls = 0\<rparr>"]
  show ?thesis by auto
qed

text \<open>
  C7. On an open session of the server whose direct queue holds 256 messages,
  \<open>DirectMessage\<close> returns at once with the error \<open>direct message buffer full\<close>: the
  message is dropped and the session, its queue included, is unchanged. Called by
  another goroutine while the connection loop runs, it leaves the connection as it was:
  the loop goes on with the same state and the same ticker.
\<close>

theorem DirectMessage_queue_full:
  assumes "session_ok s" and "\<not> closed s" and "length (buffer (direct_messages s)) = 256"
  shows "DirectMessage s msg = Inr (Some ErrQueueFull, s) \<and>
         (heap w a = Some s \<longrightarrow> step e a (now, Call_DirectMessage msg) (w, t) = Continue (w, t))"
proof -
  have d: "DirectMessage s msg = Inr (Some ErrQueueFull, s)"
    using assms by (simp add: session_ok_def DirectMessage_def try_send_def)
  have "step e a (now, Call_DirectMessage msg) (w, t) = Continue (w, t)" if "heap w a = Some s"
  proof -
    have "store a s w = w" using that by (simp add: store_def map_upd_triv)
    with that d show ?thesis by (simp add: step_def)
  qed
  with d show ?thesis by blast
qed

theorem DirectMessage_queue_full_witness:
  "session_ok ((new_session \<lparr>Id = ''c1'', close_calls = 0\<rparr>)
       \<lparr>direct_messages := \<lparr>buffer = replicate 256 Map.empty, capacity = 256, is_closed = False\<rparr>\<rparr>) \<and>
   DirectMessage ((new_session \<lparr>Id = ''c1'', close_calls = 0\<rparr>)
       \<lparr>direct_messages := \<lparr>buffer = replicate 256 Map.empty, capacity = 256, is_closed = False\<rparr>\<rparr>)
     [''event'' \<mapsto> String ''x''] =
   Inr (Some ErrQueueFull, (new_session \<lparr>Id = ''c1'', close_calls = 0\<rparr>)
       \<lparr>direct_messages := \<lparr>buffer = replicate 256 Map.empty, capacity = 256, is_closed = False\<rparr>\<rparr>)"
proof -
  let ?s = "(new_session \<lparr>Id = ''c1'', close_calls = 0\<rparr>)
       \<lparr>direct_messages := \<lparr>buffer = replicate 256 Map.empty, capacity = 256, is_closed = False\<rparr>\<rparr>"
  have ok: "session_ok ?s" by (simp add: session_ok_def new_session_def make_chan_def)
  have op: "\<not> closed ?s" by (simp add: new_session_def)
  have full: "length (buffer (direct_messages ?s)) = 256" by simp
  from DirectMessage_queue_full [OF ok op full] ok show ?thesis by blast
qed

subsection \<open>Setting up and tearing down a connection\<close>

text \<open>
  C1. When \<open>OnInitialize\<close> returns an error the handler of the request returns at once:
  the error is written, no \<open>on_connect\<close> message is queued or written, \<open>OnDisconnect\<close>
  is not called, and the session is closed. The deferred call that deletes the session
  from the registry is only set up after the handler has been initialised, so it does not
  run on this path: when the request handler has returned, the registry still maps the
  client id to the closed session.
\<close>

theorem OnInitialize_error_keeps_registry_entry:
  assumes "factory w = Some (Some h)" and "OnInitialize h = Some err"
  shows "\<exists>w' s'. stream e c t0 sched w = Returned w' \<and>
     trace w' = trace w @ [SetHeaders, RegistryInsert (Id c), HookOnInitialize (Id c),
       WriteError err, SessionClose (Id c), Cancel] \<and>
     clients w' (Id c) = Some (next_ref w) \<and>
     heap w' (next_ref w) = Some s' \<and> closed s' \<and> client_id s' = Id c"
proof -
  from stream_init_error [OF assms, of e c t0 sched] obtain w' s' where
    "stream e c t0 sched w = Returned w'"
    "trace w' = trace w @ [SetHeaders, RegistryInsert (Id c), HookOnInitialize (Id c),
       WriteError err, SessionClose (Id c), Cancel]"
    "clients w' = (clients w)(Id c \<mapsto> next_ref w)"
    "heap w' (next_ref w) = Some s'" "closed s'" "client_id s' = Id c"
    by blast
  then show ?thesis by auto
qed

theorem OnInitialize_error_keeps_registry_entry_witness:
  "\<exists>w' s'. stream example_env example_consumer 0 []
       (example_world\<lparr>factory := Some (Some (example_handler\<lparr>OnInitialize := Some ''denied''\<rparr>))\<rparr>) =
       Returned w' \<and>
     trace w' = [SetHeaders, RegistryInsert ''c1'', HookOnInitialize ''c1'',
       WriteError ''denied'', SessionClose ''c1'', Cancel] \<and>
     clients w' ''c1'' = Some 0 \<and> heap w' 0 = Some s' \<and> closed s'"
  using OnInitialize_error_keeps_registry_entry [of 
      "example_world\<lparr>factory := Some (Some (example_handler\<lparr>OnInitialize := Some ''denied''\<rparr>))\<rparr>"
      "example_handler\<lparr>OnInitialize := Some ''denied''\<rparr>" "''denied''" example_env
      example_consumer 0 "[]"]
  by (auto simp: example_world_def example_consumer_def)




subsection \<open>Callback requests\<close>

text \<open>
  C4. The client id of a callback request is the first non-empty one of the
  \<open>X-Client-ID\<close> header, the \<open>client_id\<close> parameter and the \<open>observer_id\<close> parameter, in
  this order; in particular the header wins whenever it is present. With no id the
  callback is answered with the error \<open>missing client_id\<close>; with an id the registry does
  not know, with the error \<open>client not found\<close>; otherwise \<open>OnCallback\<close> of the handler
  of the session is called, and for a session without handler nothing happens at all,
  no error included.
\<close>

theorem handleCallback_resolution:
  "callback_clientID e r = first_nonempty (callback_candidates e r) \<and>
   (X_Client_ID r \<noteq> [] \<longrightarrow> callback_clientID e r = X_Client_ID r) \<and>
   (callback_clientID e r = [] \<longrightarrow>
      handleCallback e r w = Inr (emit (WriteError ErrMissingClientID) w)) \<and>
   (callback_clientID e r \<noteq> [] \<and> clients w (callback_clientID e r) = None \<longrightarrow>
      handleCallback e r w = Inr (emit (WriteError ErrClientNotFound) w)) \<and>
   (callback_clientID e r \<noteq> [] \<and> clients w (callback_clientID e r) = Some a \<and>
    heap w a = Some session \<longrightarrow>
      handleCallback e r w =
        Inr (case user_handler session of
               Some h \<Rightarrow> emit (HookOnCallback (client_id session)) w
             | None \<Rightarrow> w))"
proof -
  have 1: "X_Client_ID r \<noteq> [] \<longrightarrow> callback_clientID e r = X_Client_ID r"
    by (simp add: callback_clientID_def Let_def)
  have 2: "callback_clientID e r = [] \<longrightarrow>
      handleCallback e r w = Inr (emit (WriteError ErrMissingClientID) w)"
    by (simp add: handleCallback_def Let_def)
  have 3: "callback_clientID e r \<noteq> [] \<and> clients w (callback_clientID e r) = None \<longrightarrow>
      handleCallback e r w = Inr (emit (WriteError ErrClientNotFound) w)"
    by (simp add: handleCallback_def Let_def)
  have 4: "callback_clientID e r \<noteq> [] \<and> clients w (callback_clientID e r) = Some a \<and>
    heap w a = Some session \<longrightarrow>
      handleCallback e r w =
        Inr (case user_handler session of
               Some h \<Rightarrow> emit (HookOnCallback (client_id session)) w
             | None \<Rightarrow> w)"
    by (simp add: handleCallback_def Let_def split: option.splits)
  from callback_clientID_eq 1 2 3 4 show ?thesis by blast
qed

theorem handleCallback_resolution_witness:
  "callback_clientID example_env example_callback_request = ''c1'' \<and>
   handleCallback example_env example_callback_request example_world =
     Inr (emit (WriteError ErrClientNotFound) example_world) \<and>
   handleCallback example_env example_callback_request (established example_consumer example_world) =
     Inr (emit (HookOnCallback ''c1'') (established example_consumer example_world)) \<and>
   callback_clientID example_env (example_callback_request\<lparr>X_Client_ID := []\<rparr>) = ''c2'' \<and>
   handleCallback example_env (example_callback_request\<lparr>X_Client_ID := [], request_params := None\<rparr>)
       example_world =
     Inr (emit (WriteError ErrMissingClientID) example_world)"
proof -
  let ?r = example_callback_request and ?e = example_env
  let ?W = "established example_consumer example_world"
  let ?r2 = "?r\<lparr>X_Client_ID := []\<rparr>" and ?r3 = "?r\<lparr>X_Client_ID := [], request_params := None\<rparr>"
  obtain s where s: "heap ?W 0 = Some s" "user_handler s = Some example_handler" "client_id s = ''c1''"
    using established_session [of example_consumer example_world]
    by (auto simp: example_world_def example_consumer_def handler_of_def)
  note T = handleCallback_resolution [of ?e ?r example_world 0 s]
  note TW = handleCallback_resolution [of ?e ?r ?W 0 s]
  note T2 = handleCallback_resolution [of ?e ?r2 example_world 0 s]
  note T3 = handleCallback_resolution [of ?e ?r3 example_world 0 s]
  have h: "X_Client_ID ?r \<noteq> []" "X_Client_ID ?r = ''c1''"
    by (simp_all add: example_callback_request_def)
  from T h have id: "callback_clientID ?e ?r = ''c1''" by metis
  have none: "clients example_world ''c1'' = None" by (simp add: example_world_def)
  from T id none have a: "handleCallback ?e ?r example_world =
      Inr (emit (WriteError ErrClientNotFound) example_world)"
    by auto
  have reg: "clients ?W ''c1'' = Some 0"
    by (simp add: established_clients example_consumer_def example_world_def)
  from TW id reg s have b: "handleCallback ?e ?r ?W = Inr (emit (HookOnCallback ''c1'') ?W)"
    by auto
  have "first_nonempty (callback_candidates ?e ?r2) = ''c2''"
    by (simp add: example_callback_request_def example_env_def first_nonempty_def
        callback_candidates_def parameter_or_empty_def)
  with T2 have id2: "callback_clientID ?e ?r2 = ''c2''" by metis
  have "first_nonempty (callback_candidates ?e ?r3) = []"
    by (simp add: first_nonempty_def callback_candidates_def parameter_or_empty_def)
  with T3 have "callback_clientID ?e ?r3 = []" by metis
  with T3 have d: "handleCallback ?e ?r3 example_world =
     Inr (emit (WriteError ErrMissingClientID) example_world)"
    by metis
  from id a b id2 d show ?thesis by blast
qed

subsection \<open>Streaming request or callback\<close>

text \<open>
  C10. \<open>containsAcceptType\<close> never panics and returns true exactly when, for some entry
  of the header split at its commas (the entries, each with a comma put in front, make up
  the header with a comma in front, and no entry holds a comma), the entry cut at its
  first semicolon and trimmed of surrounding white space equals the expected type. So
  \<open>text/event-stream;charset=utf-8\<close> declares \<open>text/event-stream\<close>, and \<open>*/*\<close> and
  \<open>text/event-stream2\<close> do not. A request whose \<open>Accept\<close> header does not declare
  \<open>text/event-stream\<close> and whose \<open>X-Client-ID\<close> header is not empty is handled as a
  callback, which creates and registers no session; any other request opens a stream.
\<close>

theorem containsAcceptType_iff:
  "containsAcceptType acceptHeader expectedType =
     Inr (\<exists>entry \<in> set (Split acceptHeader (CHR '','')).
            TrimSpace (takeWhile (\<lambda>c. c \<noteq> CHR '';'') entry) = expectedType) \<and>
   concat (map (\<lambda>entry. CHR '','' # entry) (Split acceptHeader (CHR '',''))) = CHR '','' # acceptHeader \<and>
   (\<forall>entry \<in> set (Split acceptHeader (CHR '','')). CHR '','' \<notin> set entry) \<and>
   containsAcceptType ''text/event-stream;charset=utf-8'' ''text/event-stream'' = Inr True \<and>
   containsAcceptType ''*/*'' ''text/event-stream'' = Inr False \<and>
   containsAcceptType ''text/event-stream2'' ''text/event-stream'' = Inr False \<and>
   (containsAcceptType (Accept r) ''text/event-stream'' = Inr False \<and> X_Client_ID r \<noteq> [] \<longrightarrow>
      serve e r c t0 sched w =
        (case handleCallback e r w of Inl p \<Rightarrow> Panicked p | Inr w' \<Rightarrow> Returned w') \<and>
      (\<forall>w'. serve e r c t0 sched w = Returned w' \<longrightarrow>
         clients w' = clients w \<and> heap w' = heap w)) \<and>
   (containsAcceptType (Accept r) ''text/event-stream'' = Inr True \<or> X_Client_ID r = [] \<longrightarrow>
      serve e r c t0 sched w = stream e c t0 sched w)"
proof -
  have a: "containsAcceptType acceptHeader expectedType =
     Inr (\<exists>entry \<in> set (Split acceptHeader (CHR '','')).
            TrimSpace (takeWhile (\<lambda>c. c \<noteq> CHR '';'') entry) = expectedType)" for acceptHeader expectedType
    by (simp add: containsAcceptType_def containsAcceptType_loop_iff)
  have b: "serve e r c t0 sched w =
        (case handleCallback e r w of Inl p \<Rightarrow> Panicked p | Inr w' \<Rightarrow> Returned w')"
    if "containsAcceptType (Accept r) ''text/event-stream'' = Inr False" "X_Client_ID r \<noteq> []"
    using that by (simp add: serve_def)
  have b': "clients w' = clients w \<and> heap w' = heap w"
    if "containsAcceptType (Accept r) ''text/event-stream'' = Inr False" "X_Client_ID r \<noteq> []"
      "serve e r c t0 sched w = Returned w'" for w'
    using that b handleCallback_frame [of e r w w'] by (auto split: sum.splits)
  have c: "serve e r c t0 sched w = stream e c t0 sched w"
    if "containsAcceptType (Accept r) ''text/event-stream'' = Inr True \<or> X_Client_ID r = []"
    using that a [of "Accept r" "''text/event-stream''"] by (auto simp: serve_def)
  have d: "concat (map (\<lambda>entry. CHR '','' # entry) (Split acceptHeader (CHR '',''))) =
      CHR '','' # acceptHeader"
    by (rule Split_join)
  have d': "\<forall>entry \<in> set (Split acceptHeader (CHR '','')). CHR '','' \<notin> set entry"
    using Split_parts by blast
  show ?thesis using a d d' accepts_with_charset rejects_wildcard rejects_longer_type b b' c by blast
qed

theorem containsAcceptType_iff_witness:
  "containsAcceptType ''text/html, text/event-stream ;q=0.9'' ''text/event-stream'' = Inr True \<and>
   (\<exists>entry \<in> set (Split ''text/html, text/event-stream ;q=0.9'' (CHR '','')).
      TrimSpace (takeWhile (\<lambda>c. c \<noteq> CHR '';'') entry) = ''text/event-stream'') \<and>
   serve example_env example_callback_request example_consumer 0 [] example_world =
     Returned (emit (WriteError ErrClientNotFound) example_world) \<and>
   serve example_env (example_callback_request\<lparr>X_Client_ID := []\<rparr>) example_consumer 0 [] example_world =
     stream example_env example_consumer 0 [] example_world"
proof -
  note T = containsAcceptType_iff [where acceptHeader = "''text/html, text/event-stream ;q=0.9''"
      and expectedType = "''text/event-stream''" and r = example_callback_request
      and e = example_env and c = example_consumer and ?t0.0 = 0 and sched = "[]" and w = example_world]
  note T' = containsAcceptType_iff [where acceptHeader = "''text/html, text/event-stream ;q=0.9''"
      and expectedType = "''text/event-stream''" and r = "example_callback_request\<lparr>X_Client_ID := []\<rparr>"
      and e = example_env and c = example_consumer and ?t0.0 = 0 and sched = "[]" and w = example_world]
  from T accepts_second_entry have 1: "\<exists>entry \<in> set (Split ''text/html, text/event-stream ;q=0.9'' (CHR '','')).
      TrimSpace (takeWhile (\<lambda>c. c \<noteq> CHR '';'') entry) = ''text/event-stream''"
    by simp
  have h: "containsAcceptType (Accept example_callback_request) ''text/event-stream'' = Inr False"
    "X_Client_ID example_callback_request \<noteq> []"
    by (simp_all add: example_callback_request_def rejects_json)
  with T have "serve example_env example_callback_request example_consumer 0 [] example_world =
      (case handleCallback example_env example_callback_request example_world of
         Inl p \<Rightarrow> Panicked p | Inr w' \<Rightarrow> Returned w')"
    by blast
  then have 2: "serve example_env example_callback_request example_consumer 0 [] example_world =
     Returned (emit (WriteError ErrClientNotFound) example_world)"
    by (simp add: example_callback_unknown)
  have "X_Client_ID (example_callback_request\<lparr>X_Client_ID := []\<rparr>) = []" by simp
  with T' have 3: "serve example_env (example_callback_request\<lparr>X_Client_ID := []\<rparr>) example_consumer 0 []
      example_world = stream example_env example_consumer 0 [] example_world"
    by blast
  from accepts_second_entry 1 2 3 show ?thesis by blast
qed

subsection \<open>The wire format\<close>

text \<open>
  C9. When the JSON encoding of a message succeeds with the text \<open>j\<close>, \<open>Encode\<close> gives
  the bytes \<open>data: \<close>, then \<open>j\<close>, then carriage return, line feed, carriage return,
  line feed; when it fails, \<open>Encode\<close> fails with the same error. In the connection loop
  every frame handed to \<open>w.Write\<close> has this form: in a broadcast turn and in a direct
  turn it is the frame of the message received, and that frame is written when the
  handler, if any, accepts the message; in a ping turn it is the frame of the ping
  message, written when the tick is due; and over a whole loop every frame written is
  the frame of some message.
\<close>

theorem Encode_frame_format:
  "(Marshal m = Inr j \<longrightarrow>
      Encode Marshal m = Inr (''data: '' @ j @ [CHR 0x0D, CHR 0x0A, CHR 0x0D, CHR 0x0A])) \<and>
   (Marshal m = Inl err \<longrightarrow> Encode Marshal m = Inl err) \<and>
   (heap w a = Some s \<and> ends_in (step e a (now, Recv_broadcast msg ok) (w, t)) w' \<longrightarrow>
      (\<forall>b ok'. Write b ok' \<in> set (since w w') \<longrightarrow>
         (\<exists>j. json_Marshal e msg = Inr j \<and> b = ''data: '' @ j @ CRLF @ CRLF)) \<and>
      ((\<forall>h. user_handler s = Some h \<longrightarrow> OnMessage h msg) \<and> json_Marshal e msg = Inr j \<longrightarrow>
         Write (''data: '' @ j @ CRLF @ CRLF) ok \<in> set (since w w'))) \<and>
   (heap w a = Some s \<and> buffer (direct_messages s) = msg # rest \<and>
    ends_in (step e a (now, Recv_direct ok) (w, t)) w' \<longrightarrow>
      (\<forall>b ok'. Write b ok' \<in> set (since w w') \<longrightarrow>
         (\<exists>j. json_Marshal e msg = Inr j \<and> b = ''data: '' @ j @ CRLF @ CRLF)) \<and>
      ((\<forall>h. user_handler s = Some h \<longrightarrow> OnMessage h msg) \<and> json_Marshal e msg = Inr j \<longrightarrow>
         Write (''data: '' @ j @ CRLF @ CRLF) ok \<in> set (since w w'))) \<and>
   (heap w a = Some s \<and> ends_in (step e a (now, Recv_tick ok) (w, t)) w' \<longrightarrow>
      (\<forall>b ok'. Write b ok' \<in> set (since w w') \<longrightarrow>
         (\<exists>j. json_Marshal e (pingMsg now) = Inr j \<and> b = ''data: '' @ j @ CRLF @ CRLF)) \<and>
      (t \<le> now \<and> json_Marshal e (pingMsg now) = Inr j \<longrightarrow>
         Write (''data: '' @ j @ CRLF @ CRLF) ok \<in> set (since w w'))) \<and>
   (heap w a = Some s \<and> session_ok s \<and> ends_in (loop e a xs (w, t)) w' \<longrightarrow>
      (\<forall>b ok'. Write b ok' \<in> set (since w w') \<longrightarrow>
         (\<exists>msg j. json_Marshal e msg = Inr j \<and> b = ''data: '' @ j @ CRLF @ CRLF)))"
proof -
  have 1: "Marshal m = Inr j \<longrightarrow>
      Encode Marshal m = Inr (''data: '' @ j @ [CHR 0x0D, CHR 0x0A, CHR 0x0D, CHR 0x0A])"
    by (simp add: Encode_def CRLF_def)
  have 2: "Marshal m = Inl err \<longrightarrow> Encode Marshal m = Inl err"
    by (simp add: Encode_def)
  have 3: "(\<forall>b ok'. Write b ok' \<in> set (since w w') \<longrightarrow>
         (\<exists>j. json_Marshal e msg = Inr j \<and> b = ''data: '' @ j @ CRLF @ CRLF)) \<and>
      ((\<forall>h. user_handler s = Some h \<longrightarrow> OnMessage h msg) \<and> json_Marshal e msg = Inr j \<longrightarrow>
         Write (''data: '' @ j @ CRLF @ CRLF) ok \<in> set (since w w'))"
    if "heap w a = Some s" "ends_in (step e a (now, Recv_broadcast msg ok) (w, t)) w'"
  proof -
    have "since w w' = deliver_events e (user_handler s) (client_id s) msg ok"
      using step_since [OF that] by (simp add: occurrence_events_def)
    then show ?thesis
      using Write_in_deliver_events [of _ _ e "user_handler s" "client_id s" msg ok]
        deliver_events_accepted [of "user_handler s" msg e j "client_id s" ok]
      by auto
  qed
  have 4: "(\<forall>b ok'. Write b ok' \<in> set (since w w') \<longrightarrow>
         (\<exists>j. json_Marshal e msg = Inr j \<and> b = ''data: '' @ j @ CRLF @ CRLF)) \<and>
      ((\<forall>h. user_handler s = Some h \<longrightarrow> OnMessage h msg) \<and> json_Marshal e msg = Inr j \<longrightarrow>
         Write (''data: '' @ j @ CRLF @ CRLF) ok \<in> set (since w w'))"
    if "heap w a = Some s" "buffer (direct_messages s) = msg # rest"
      "ends_in (step e a (now, Recv_direct ok) (w, t)) w'"
  proof -
    have "since w w' = deliver_events e (user_handler s) (client_id s) msg ok"
      using step_since [OF that(1,3)] that(2) by (simp add: occurrence_events_def)
    then show ?thesis
      using Write_in_deliver_events [of _ _ e "user_handler s" "client_id s" msg ok]
        deliver_events_accepted [of "user_handler s" msg e j "client_id s" ok]
      by auto
  qed
  have 5: "(\<forall>b ok'. Write b ok' \<in> set (since w w') \<longrightarrow>
         (\<exists>j. json_Marshal e (pingMsg now) = Inr j \<and> b = ''data: '' @ j @ CRLF @ CRLF)) \<and>
      (t \<le> now \<and> json_Marshal e (pingMsg now) = Inr j \<longrightarrow>
         Write (''data: '' @ j @ CRLF @ CRLF) ok \<in> set (since w w'))"
    if "heap w a = Some s" "ends_in (step e a (now, Recv_tick ok) (w, t)) w'"
  proof -
    have "since w w' = (if now < t then [] else ping_events e now ok)"
      using step_since [OF that] by (simp add: occurrence_events_def)
    then show ?thesis
      using Write_in_ping_events [of _ _ e now ok]
      by (auto simp: ping_events_def Encode_def split: if_splits)
  qed
  have 6: "\<forall>b ok'. Write b ok' \<in> set (since w w') \<longrightarrow>
         (\<exists>msg j. json_Marshal e msg = Inr j \<and> b = ''data: '' @ j @ CRLF @ CRLF)"
    if "heap w a = Some s" "session_ok s" "ends_in (loop e a xs (w, t)) w'"
    using Write_in_turns [OF loop_since [OF that]] by blast
  from 1 2 3 4 5 6 show ?thesis by blast
qed


theorem Encode_frame_format_witness:
  "Encode (\<lambda>m. Inr ''{\"event\":\"x\",\"v\":1}'') [''event'' \<mapsto> String ''x'', ''v'' \<mapsto> Int64 1] =
     Inr (''data: {\"event\":\"x\",\"v\":1}'' @ [CHR 0x0D, CHR 0x0A, CHR 0x0D, CHR 0x0A]) \<and>
   (\<exists>w'. ends_in (step example_env 0 (5, Recv_broadcast [''event'' \<mapsto> String ''x''] True)
            (established example_consumer (example_world\<lparr>factory := None\<rparr>), 60)) w' \<and>
      Write (''data: {event:x}'' @ CRLF @ CRLF) True \<in>
        set (since (established example_consumer (example_world\<lparr>factory := None\<rparr>)) w'))"
proof -
  let ?W = "established example_consumer (example_world\<lparr>factory := None\<rparr>)"
  let ?m = "[''event'' \<mapsto> String ''x'']"
  obtain s where s: "heap ?W 0 = Some s" "session_ok s" "user_handler s = None"
    using established_session [of example_consumer "example_world\<lparr>factory := None\<rparr>"]
    by (auto simp: example_world_def handler_of_def)
  obtain w' where w': "ends_in (step example_env 0 (5, Recv_broadcast ?m True) (?W, 60)) w'"
    using step_ends [OF s(1,2)] by blast
  have j: "json_Marshal example_env ?m = Inr ''{event:x}''"
    by (simp add: example_env_def example_Marshal_def Event_def)
  note T = Encode_frame_format [where Marshal = "\<lambda>m. Inr ''{\"event\":\"x\",\"v\":1}''"
      and m = "[''event'' \<mapsto> String ''x'', ''v'' \<mapsto> Int64 1]" and j = "''{\"event\":\"x\",\"v\":1}''"]
  note T' = Encode_frame_format [where w = ?W and a = 0 and s = s and e = example_env and now = 5
      and msg = ?m and ok = True and t = 60 and w' = w' and j = "''{event:x}''"]
  from T [THEN conjunct1] have 1: "Encode (\<lambda>m. Inr ''{\"event\":\"x\",\"v\":1}'') [''event'' \<mapsto> String ''x'', ''v'' \<mapsto> Int64 1] =
     Inr (''data: {\"event\":\"x\",\"v\":1}'' @ [CHR 0x0D, CHR 0x0A, CHR 0x0D, CHR 0x0A])"
    by simp
  from T' [THEN conjunct2, THEN conjunct2, THEN conjunct1] s w' j have "Write (''data: {event:x}'' @ CRLF @ CRLF) True \<in> set (since ?W w')"
    by simp
  with 1 w' show ?thesis by blast
qed

subsection \<open>Filtering by \<open>OnMessage\<close>\<close>

text \<open>
  C2, as stated, fails for the keepalive: the ping case of the loop encodes and writes
  its message without calling \<open>OnMessage\<close>. In the run below the handler rejects every
  message, the tick is taken at time 60, and the ping frame is written all the same,
  with no call of \<open>OnMessage\<close> in the trace.
\<close>

theorem ping_written_without_OnMessage:
  "(\<forall>m. \<not> OnMessage example_handler m) \<and>
   (\<exists>w' t. stream example_env example_consumer 0 [(60, Recv_tick True)] example_world = Blocked w' t \<and>
     trace w' = [SetHeaders, RegistryInsert ''c1'', HookOnInitialize ''c1'', HookOnConnect ''c1'',
       Write (''data: {event:ping}'' @ CRLF @ CRLF) True, Flush])"
  by (simp add: example_defs run_defs Let_def)

text \<open>
  C2, amended. On a connection with a handler, a broadcast or direct message that the
  handler rejects leaves just the call of \<open>OnMessage\<close> in the trace: nothing is written,
  the loop goes on with the ticker as it was, and the server is unchanged but for the
  rejected direct message having left the queue of this session (the registry and the
  other sessions are as before). A message the handler accepts is written after the call
  of \<open>OnMessage\<close>: the turn adds that call, then the write of the encoded message, then
  the flush and the reset of the ticker when the write succeeds on a writer that can
  flush. A ping is written without any call of \<open>OnMessage\<close>. Over a whole loop, every
  frame written is a ping or comes right after the call of \<open>OnMessage\<close> that accepted
  the message it encodes.
\<close>

theorem OnMessage_filters_broadcast_and_direct:
  assumes "heap w a = Some s" and "user_handler s = Some h"
  shows
   "(\<not> OnMessage h msg \<longrightarrow>
       step e a (now, Recv_broadcast msg ok) (w, t) =
         Continue (emit (HookOnMessage (client_id s) msg) w, t)) \<and>
    (buffer (direct_messages s) = msg # rest \<and> \<not> OnMessage h msg \<longrightarrow>
       step e a (now, Recv_direct ok) (w, t) =
         Continue (emit (HookOnMessage (client_id s) msg)
           (store a (s\<lparr>direct_messages := (direct_messages s)\<lparr>buffer := rest\<rparr>\<rparr>) w), t)) \<and>
    (\<exists>w'. ends_in (step e a (now, Recv_broadcast msg ok) (w, t)) w') \<and>
    (OnMessage h msg \<and> Encode (json_Marshal e) msg = Inr enc \<and>
     ends_in (step e a (now, Recv_broadcast msg ok) (w, t)) w' \<longrightarrow>
       since w w' = [HookOnMessage (client_id s) msg, Write enc ok] @
         (if ok \<and> flusher e then [Flush, TickerReset] else [])) \<and>
    (buffer (direct_messages s) = msg # rest \<longrightarrow>
       (\<exists>w'. ends_in (step e a (now, Recv_direct ok) (w, t)) w')) \<and>
    (buffer (direct_messages s) = msg # rest \<and> OnMessage h msg \<and>
     Encode (json_Marshal e) msg = Inr enc \<and>
     ends_in (step e a (now, Recv_direct ok) (w, t)) w' \<longrightarrow>
       since w w' = [HookOnMessage (client_id s) msg, Write enc ok] @
         (if ok \<and> flusher e then [Flush, TickerReset] else [])) \<and>
    (t \<le> now \<and> Encode (json_Marshal e) (pingMsg now) = Inr enc \<and>
     ends_in (step e a (now, Recv_tick ok) (w, t)) w' \<longrightarrow>
       since w w' = Write enc ok # (if ok \<and> flusher e then [Flush] else [])) \<and>
    (session_ok s \<and> ends_in (loop e a xs (w, t)) w' \<longrightarrow>
       filtered_from e h (client_id s) None (since w w'))"
proof -
  have 1: "step e a (now, Recv_broadcast msg ok) (w, t) =
         Continue (emit (HookOnMessage (client_id s) msg) w, t)" if "\<not> OnMessage h msg"
    using assms that by (simp add: step_def deliver_def)
  have 2: "step e a (now, Recv_direct ok) (w, t) =
         Continue (emit (HookOnMessage (client_id s) msg)
           (store a (s\<lparr>direct_messages := (direct_messages s)\<lparr>buffer := rest\<rparr>\<rparr>) w), t)"
    if "buffer (direct_messages s) = msg # rest" "\<not> OnMessage h msg"
    using assms that by (simp add: step_def deliver_def recv_def)
  have 3: "\<exists>w'. ends_in (step e a (now, Recv_broadcast msg ok) (w, t)) w'"
    using assms deliver_ends [of e now s msg ok w t] by (simp add: step_def)
  have 4: "since w w' = [HookOnMessage (client_id s) msg, Write enc ok] @
         (if ok \<and> flusher e then [Flush, TickerReset] else [])"
    if "OnMessage h msg" "Encode (json_Marshal e) msg = Inr enc"
      "ends_in (step e a (now, Recv_broadcast msg ok) (w, t)) w'"
    using step_since [OF assms(1) that(3)] that(1,2) assms(2)
    by (simp add: occurrence_events_def deliver_events_def)
  have 5: "\<exists>w'. ends_in (step e a (now, Recv_direct ok) (w, t)) w'"
    if "buffer (direct_messages s) = msg # rest"
    using assms that
      deliver_ends [of e now s msg ok "store a (s\<lparr>direct_messages := (direct_messages s)\<lparr>buffer := rest\<rparr>\<rparr>) w" t]
    by (simp add: step_def recv_def)
  have 6: "since w w' = [HookOnMessage (client_id s) msg, Write enc ok] @
         (if ok \<and> flusher e then [Flush, TickerReset] else [])"
    if "buffer (direct_messages s) = msg # rest" "OnMessage h msg"
      "Encode (json_Marshal e) msg = Inr enc"
      "ends_in (step e a (now, Recv_direct ok) (w, t)) w'"
    using step_since [OF assms(1) that(4)] that(1,2,3) assms(2)
    by (simp add: occurrence_events_def deliver_events_def)
  have 7: "since w w' = Write enc ok # (if ok \<and> flusher e then [Flush] else [])"
    if "t \<le> now" "Encode (json_Marshal e) (pingMsg now) = Inr enc"
      "ends_in (step e a (now, Recv_tick ok) (w, t)) w'"
    using step_since [OF assms(1) that(3)] that(1,2)
    by (simp add: occurrence_events_def ping_events_def)
  have 8: "filtered_from e h (client_id s) None (since w w')"
    if "session_ok s" "ends_in (loop e a xs (w, t)) w'"
    using loop_since [OF assms(1) that] assms(2) filtered_turns by simp
  from 1 2 3 4 5 6 7 8 show ?thesis by blast
qed


theorem OnMessage_filters_broadcast_and_direct_witness:
  "(\<exists>s. heap (established example_consumer example_world) 0 = Some s \<and>
      step example_env 0 (1, Recv_direct True) (established example_consumer example_world, 60) =
        Continue (emit (HookOnMessage ''c1'' (on_connect_message ''c1''))
          (store 0 (s\<lparr>direct_messages := (direct_messages s)\<lparr>buffer := []\<rparr>\<rparr>)
             (established example_consumer example_world)), 60)) \<and>
   (\<exists>w'. ends_in (step example_env 0 (1, Recv_direct True)
        (established example_consumer
           (example_world\<lparr>factory := Some (Some (example_handler\<lparr>OnMessage := \<lambda>m. True\<rparr>))\<rparr>), 60)) w' \<and>
      since (established example_consumer
           (example_world\<lparr>factory := Some (Some (example_handler\<lparr>OnMessage := \<lambda>m. True\<rparr>))\<rparr>)) w' =
        [HookOnMessage ''c1'' (on_connect_message ''c1''),
         Write (''data: {event:on_connect}'' @ CRLF @ CRLF) True, Flush, TickerReset])"
proof -
  let ?W = "established example_consumer example_world"
  let ?h1 = "example_handler\<lparr>OnMessage := \<lambda>m. True\<rparr>"
  let ?W1 = "established example_consumer (example_world\<lparr>factory := Some (Some ?h1)\<rparr>)"
  let ?m = "on_connect_message ''c1''"
  obtain s where s: "heap ?W 0 = Some s" "user_handler s = Some example_handler"
    "client_id s = ''c1''" "buffer (direct_messages s) = [?m]"
    using established_session [of example_consumer example_world]
    by (auto simp: example_world_def example_consumer_def handler_of_def)
  have rej: "\<not> OnMessage example_handler ?m" by (simp add: example_handler_def)
  note T = OnMessage_filters_broadcast_and_direct [OF s(1,2), where msg = ?m and rest = "[]"
      and e = example_env and now = 1 and ok = True and t = 60]
  from T [THEN conjunct2, THEN conjunct1] s rej
  have 1: "step example_env 0 (1, Recv_direct True) (?W, 60) =
        Continue (emit (HookOnMessage ''c1'' ?m)
          (store 0 (s\<lparr>direct_messages := (direct_messages s)\<lparr>buffer := []\<rparr>\<rparr>) ?W), 60)"
    by simp
  obtain s1 where s1: "heap ?W1 0 = Some s1" "user_handler s1 = Some ?h1"
    "client_id s1 = ''c1''" "buffer (direct_messages s1) = [?m]"
    using established_session [of example_consumer "example_world\<lparr>factory := Some (Some ?h1)\<rparr>"]
    by (auto simp: example_world_def example_consumer_def handler_of_def)
  have enc: "Encode (json_Marshal example_env) ?m = Inr (''data: {event:on_connect}'' @ CRLF @ CRLF)"
    by (simp add: Encode_def example_env_def example_Marshal_def Event_def on_connect_message_def)
  have fl: "flusher example_env" by (simp add: example_env_def)
  note T1 = OnMessage_filters_broadcast_and_direct [OF s1(1,2), where msg = ?m and rest = "[]"
      and e = example_env and now = 1 and ok = True and t = 60
      and enc = "''data: {event:on_connect}'' @ CRLF @ CRLF"]
  from T1 [THEN conjunct2, THEN conjunct2, THEN conjunct2, THEN conjunct2, THEN conjunct1] s1
  obtain w' where w': "ends_in (step example_env 0 (1, Recv_direct True) (?W1, 60)) w'"
    by auto
  from T1 [where w' = w', THEN conjunct2, THEN conjunct2, THEN conjunct2, THEN conjunct2,
      THEN conjunct2, THEN conjunct1] s1 enc w' fl
  have 2: "since ?W1 w' = [HookOnMessage ''c1'' ?m,
         Write (''data: {event:on_connect}'' @ CRLF @ CRLF) True, Flush, TickerReset]"
    by simp
  from s(1) 1 w' 2 show ?thesis by blast
qed

subsection \<open>The keepalive\<close>





end
